theory Spec2Isabelle
  imports Complex_Main "HOL-Library.AList" "HOL-Library.Log_Nat"
begin

section \<open>Go values held in a device state map\<close>

text \<open>
  A state map is a \<^verbatim>\<open>map[string]interface{}\<close>.  The dynamic types modelled are the ones
  the type switches of \<^verbatim>\<open>main.go\<close> name (\<^verbatim>\<open>int\<close>, \<^verbatim>\<open>int64\<close>, \<^verbatim>\<open>float64\<close>, \<^verbatim>\<open>float32\<close>,
  \<^verbatim>\<open>json.Number\<close>, \<^verbatim>\<open>bool\<close>, \<^verbatim>\<open>string\<close>) and the ones the JSON and YAML decoders produce
  besides them (\<^verbatim>\<open>nil\<close>, \<^verbatim>\<open>map[string]interface{}\<close>, \<^verbatim>\<open>[]interface{}\<close>).  Maps and slices are
  reference values: the interface value holds an address, the contents live in the heap.
  \<^verbatim>\<open>int\<close> is the 64-bit \<^verbatim>\<open>int\<close> of the platforms the program is built for; the code only
  compares integers, so they are kept as mathematical integers.
\<close>

type_synonym addr = nat

text \<open>
  A floating-point number is a rational (every finite binary float is one), an infinity or
  NaN.  The two zeros are identified: the code only compares floats and adds \<^verbatim>\<open>0.5\<close>, and
  \<^verbatim>\<open>-0\<close> behaves as \<^verbatim>\<open>0\<close> in both.
\<close>

datatype float = Fin rat | PInf | NInf | NaN

datatype val =
    VNil
  | VBool bool
  | VInt int
  | VInt64 int
  | VFloat64 float
  | VFloat32 float
  | VString string
  | VNumber string
  | VMap addr
  | VSlice addr

text \<open>
  What the Go specification and the standard library leave open or what is too large to
  restate here is a parameter of the model:
  \<^item> \<open>conv_oor f\<close>: the result of the conversion \<^verbatim>\<open>int(f)\<close> when \<open>f\<close> is NaN, infinite or its
    truncation is outside the \<^verbatim>\<open>int\<close> range (implementation-dependent in Go);
  \<^item> \<open>ParseFloat s\<close>: \<^verbatim>\<open>strconv.ParseFloat(s, 64)\<close>, \<open>None\<close> when it returns an error;
  \<^item> \<open>TrimSpace s\<close>: \<^verbatim>\<open>strings.TrimSpace(s)\<close>.
\<close>

record platform =
  conv_oor :: "float \<Rightarrow> int"
  ParseFloat :: "string \<Rightarrow> float option"
  TrimSpace :: "string \<Rightarrow> string"

subsection \<open>Floating-point comparison, rounding and conversion\<close>

text \<open>\<^verbatim>\<open>a < b\<close> on floats: false as soon as one side is NaN.\<close>

fun float_less :: "float \<Rightarrow> float \<Rightarrow> bool" where
  "float_less (Fin a) (Fin b) = (a < b)"
| "float_less (Fin a) PInf = True"
| "float_less NInf (Fin b) = True"
| "float_less NInf PInf = True"
| "float_less _ _ = False"

definition round_half_even :: "rat \<Rightarrow> int" where
  "round_half_even x =
     (let f = \<lfloor>x\<rfloor>; d = x - of_int f
      in if d < 1 / 2 then f else if 1 / 2 < d then f + 1 else if even f then f else f + 1)"

text \<open>\<open>ilog2 x\<close> is the binary exponent of a positive rational: \<open>2 ^ e \<le> x < 2 ^ (e + 1)\<close>.\<close>

definition ilog2 :: "rat \<Rightarrow> int" where
  "ilog2 x =
     (let e = int (floorlog 2 (nat (fst (quotient_of x)))) - int (floorlog 2 (nat (snd (quotient_of x))))
      in if 2 powi e \<le> x then e else e - 1)"

text \<open>
  IEEE 754 rounding to nearest, ties to even, into the binary format with \<open>p\<close> bits of
  precision and exponents \<open>emin .. emax\<close> (subnormals included, overflow to infinity).
\<close>

definition round_to_format :: "nat \<Rightarrow> int \<Rightarrow> int \<Rightarrow> rat \<Rightarrow> float" where
  "round_to_format p emin emax x =
     (if x = 0 then Fin 0
      else
        let e = max (ilog2 \<bar>x\<bar>) emin;
            q = 2 powi (e - int p + 1);
            r = of_int (round_half_even (x / q)) * q
        in if 2 powi (emax + 1) \<le> \<bar>r\<bar> then (if 0 < x then PInf else NInf) else Fin r)"

definition round64 :: "rat \<Rightarrow> float" where
  "round64 = round_to_format 53 (- 1022) 1023"

definition round32 :: "rat \<Rightarrow> float" where
  "round32 = round_to_format 24 (- 126) 127"

text \<open>\<^verbatim>\<open>a + b\<close> in the format whose rounding is \<open>rnd\<close>.\<close>

fun float_add :: "(rat \<Rightarrow> float) \<Rightarrow> float \<Rightarrow> float \<Rightarrow> float" where
  "float_add rnd (Fin a) (Fin b) = rnd (a + b)"
| "float_add rnd NaN _ = NaN"
| "float_add rnd _ NaN = NaN"
| "float_add rnd PInf NInf = NaN"
| "float_add rnd NInf PInf = NaN"
| "float_add rnd PInf _ = PInf"
| "float_add rnd _ PInf = PInf"
| "float_add rnd NInf _ = NInf"
| "float_add rnd _ NInf = NInf"

text \<open>
  \<^verbatim>\<open>int(f)\<close>: the fraction is discarded (truncation towards zero); a value that does not fit
  is left to the platform.
\<close>

definition float_to_int :: "platform \<Rightarrow> float \<Rightarrow> int" where
  "float_to_int P f =
     (case f of
        Fin x \<Rightarrow>
          (let t = (if 0 \<le> x then \<lfloor>x\<rfloor> else \<lceil>x\<rceil>)
           in if - (2 ^ 63) \<le> t \<and> t < 2 ^ 63 then t else conv_oor P f)
      | _ \<Rightarrow> conv_oor P f)"

text \<open>\<^verbatim>\<open>float64(n)\<close> for an integer \<open>n\<close>: the nearest \<^verbatim>\<open>float64\<close>.\<close>

definition int_to_float64 :: "int \<Rightarrow> float" where
  "int_to_float64 n = round64 (of_int n)"

subsection \<open>Library functions on strings\<close>

text \<open>
  \<^verbatim>\<open>strconv.ParseInt(s, 10, 64)\<close>, which \<^verbatim>\<open>json.Number.Int64\<close> calls: an optional sign, then
  one or more decimal digits, and the value must fit in 64 bits.  \<open>None\<close> is a non-nil error.
\<close>

definition is_digit :: "char \<Rightarrow> bool" where
  "is_digit c = (48 \<le> (of_char c :: nat) \<and> (of_char c :: nat) \<le> 57)"

definition digits_value :: "string \<Rightarrow> nat" where
  "digits_value s = foldl (\<lambda>n c. 10 * n + ((of_char c :: nat) - 48)) 0 s"

definition ParseUint :: "string \<Rightarrow> nat option" where
  "ParseUint s = (if s \<noteq> [] \<and> list_all is_digit s then Some (digits_value s) else None)"

definition ParseInt :: "string \<Rightarrow> int option" where
  "ParseInt s =
     (case s of
        [] \<Rightarrow> None
      | c # cs \<Rightarrow>
          (let neg = (c = CHR ''-'');
               ds = (if c = CHR ''+'' \<or> c = CHR ''-'' then cs else s)
           in case ParseUint ds of
                None \<Rightarrow> None
              | Some un \<Rightarrow>
                  if \<not> neg \<and> 2 ^ 63 \<le> un then None
                  else if neg \<and> 2 ^ 63 < un then None
                  else Some (if neg then - int un else int un)))"

text \<open>
  \<^verbatim>\<open>strings.EqualFold\<close> against the two words \<^verbatim>\<open>toBool\<close> compares with.  No character
  outside ASCII folds to one of the letters of \<^verbatim>\<open>true\<close> and \<^verbatim>\<open>on\<close>, so comparing the
  ASCII-lowercased bytes is exactly the Unicode simple case folding for these targets.
\<close>

definition to_lower :: "char \<Rightarrow> char" where
  "to_lower c =
     (if 65 \<le> (of_char c :: nat) \<and> (of_char c :: nat) \<le> 90
      then char_of ((of_char c :: nat) + 32) else c)"

definition EqualFold :: "string \<Rightarrow> string \<Rightarrow> bool" where
  "EqualFold s t = (map to_lower s = map to_lower t)"

section \<open>Normalization\<close>

definition clampInt :: "int \<Rightarrow> int \<Rightarrow> int \<Rightarrow> int" where
  "clampInt value lo hi = (if value < lo then lo else if hi < value then hi else value)"

definition clampFloat :: "float \<Rightarrow> float \<Rightarrow> float \<Rightarrow> float" where
  "clampFloat value lo hi =
     (if float_less value lo then lo else if float_less hi value then hi else value)"

fun clampToInt :: "platform \<Rightarrow> val \<Rightarrow> int \<Rightarrow> int \<Rightarrow> int" where
  "clampToInt P (VInt number) lo hi = clampInt number lo hi"
| "clampToInt P (VInt64 number) lo hi = clampInt number lo hi"
| "clampToInt P (VFloat64 number) lo hi =
     clampInt (float_to_int P (float_add round64 number (Fin (1 / 2)))) lo hi"
| "clampToInt P (VFloat32 number) lo hi =
     clampInt (float_to_int P (float_add round32 number (Fin (1 / 2)))) lo hi"
| "clampToInt P (VNumber number) lo hi =
     (case ParseInt number of Some parsed \<Rightarrow> clampInt parsed lo hi | None \<Rightarrow> lo)"
| "clampToInt P _ lo hi = lo"

fun clampToFloat :: "platform \<Rightarrow> val \<Rightarrow> float \<Rightarrow> float \<Rightarrow> float" where
  "clampToFloat P (VFloat64 number) lo hi = clampFloat number lo hi"
| "clampToFloat P (VFloat32 number) lo hi = clampFloat number lo hi"
| "clampToFloat P (VInt number) lo hi = clampFloat (int_to_float64 number) lo hi"
| "clampToFloat P (VInt64 number) lo hi = clampFloat (int_to_float64 number) lo hi"
| "clampToFloat P (VNumber number) lo hi =
     (case ParseFloat P number of Some parsed \<Rightarrow> clampFloat parsed lo hi | None \<Rightarrow> lo)"
| "clampToFloat P _ lo hi = lo"

fun toBool :: "val \<Rightarrow> bool" where
  "toBool (VBool v) = v"
| "toBool (VString v) = (EqualFold v ''true'' \<or> v = ''1'' \<or> EqualFold v ''on'')"
| "toBool (VInt v) = (v \<noteq> 0)"
| "toBool (VInt64 v) = (v \<noteq> 0)"
| "toBool (VFloat64 v) = (v \<noteq> Fin 0)"
| "toBool _ = False"

definition normalizeValue :: "platform \<Rightarrow> string \<Rightarrow> string \<Rightarrow> val \<Rightarrow> val" where
  "normalizeValue P kind key value =
     (if kind = ''blind'' \<or> kind = ''humidifier'' then
        (if key = ''position'' \<or> key = ''level'' then VInt (clampToInt P value 0 100)
         else value)
      else if kind = ''thermostat'' then
        (if key = ''temperature'' then VFloat64 (clampToFloat P value (Fin 10) (Fin 30))
         else value)
      else if kind = ''toggle'' \<or> kind = ''lock'' \<or> kind = ''sensor'' \<or> kind = ''toaster''
              \<or> kind = ''doors'' \<or> kind = ''vacuum'' then
        (if key = ''on'' \<or> key = ''open'' \<or> key = ''locked'' then VBool (toBool value)
         else if key = ''mode'' then
           (case value of VString mode \<Rightarrow> VString (TrimSpace P mode) | _ \<Rightarrow> value)
         else value)
      else value)"

section \<open>The heap of state maps\<close>

text \<open>
  A Go map is a reference: copying a \<^verbatim>\<open>Device\<close> struct copies the address of its state
  map, not the entries.  The heap is the list of all allocated maps, an address is an index
  into it, and a map is the list of its entries (keys unique, in the order in which
  \<^verbatim>\<open>range\<close> happens to visit them).  A nil map is the address \<open>None\<close>.
\<close>

type_synonym gomap = "(string \<times> val) list"

type_synonym heap = "gomap list"

definition entries :: "heap \<Rightarrow> addr \<Rightarrow> gomap" where
  "entries h a = (if a < length h then h ! a else [])"

text \<open>\<^verbatim>\<open>make(map[string]interface{})\<close> followed by filling it: a fresh address.\<close>

definition new_map :: "heap \<Rightarrow> gomap \<Rightarrow> heap \<times> addr" where
  "new_map h m = (h @ [m], length h)"

text \<open>\<^verbatim>\<open>m[key] = value\<close> on the map at address \<open>a\<close>.\<close>

definition map_assign :: "heap \<Rightarrow> addr \<Rightarrow> string \<Rightarrow> val \<Rightarrow> heap" where
  "map_assign h a key value = h[a := AList.update key value (entries h a)]"

text \<open>
  A map that a caller passes and the callee only reads is given by its entries, \<open>None\<close> for
  a nil map; \<^verbatim>\<open>range\<close> and \<^verbatim>\<open>len\<close> see a nil map as an empty one.
\<close>

definition map_entries :: "gomap option \<Rightarrow> gomap" where
  "map_entries state = (case state of None \<Rightarrow> [] | Some m \<Rightarrow> m)"

record Device =
  ID :: string
  Name :: string
  Kind :: string
  Room :: string
  State :: "addr option"

text \<open>
  \<^verbatim>\<open>devices map[string]*Device\<close> and \<^verbatim>\<open>order []string\<close>.  Every \<^verbatim>\<open>*Device\<close> the store
  holds points to a struct that \<^verbatim>\<open>NewStore\<close> allocated and that no one else can reach, and
  every \<^verbatim>\<open>*Device\<close> the store returns points to a new copy of the struct
  (\<^verbatim>\<open>copyDevice := *device\<close>), so device structs are kept by value; the state map inside
  is an address.
\<close>

record Store =
  devices :: "(string \<times> Device) list"
  order :: "string list"

text \<open>
  A returned \<^verbatim>\<open>error\<close> carries its message.  Writing to a nil map and reading a field
  through a nil pointer are runtime panics, not returned errors; a panic is kept as an
  outcome of its own.
\<close>

datatype error = ErrorString string | RuntimePanic string

section \<open>The store\<close>

text \<open>
  Every method of the store holds the store's lock from its first to its last statement, so
  a call is one step from a heap to a heap.  A method that returns a \<^verbatim>\<open>*Device\<close> returns
  the copied struct; the new state map is in the heap that is returned with it.
\<close>

definition copyState :: "heap \<Rightarrow> addr option \<Rightarrow> heap \<times> addr" where
  "copyState h state =
     (case state of
        None \<Rightarrow> new_map h []
      | Some a \<Rightarrow>
          new_map h (fold (\<lambda>(key, value) copyMap. AList.update key value copyMap) (entries h a) []))"

text \<open>\<^verbatim>\<open>copyDevice := *device\<close> followed by \<^verbatim>\<open>copyDevice.State = copyState(device.State)\<close>.\<close>

definition copy_device :: "heap \<Rightarrow> Device \<Rightarrow> heap \<times> Device" where
  "copy_device h device =
     (let (h', a) = copyState h (State device) in (h', device\<lparr>State := Some a\<rparr>))"

text \<open>
  \<^verbatim>\<open>NewStore\<close> is called once, with the slice that \<^verbatim>\<open>loadDevices\<close> returned; no entry of
  that slice is nil, so it is given by the devices the entries point to.
\<close>

fun NewStore_loop :: "Device list \<Rightarrow> heap \<times> Store \<Rightarrow> heap \<times> Store" where
  "NewStore_loop [] (h, s) = (h, s)"
| "NewStore_loop (device # rest) (h, s) =
     (let (h', copyDevice) = copy_device h device
      in NewStore_loop rest
           (h', \<lparr>devices = AList.update (ID device) copyDevice (devices s),
                 order = order s @ [ID device]\<rparr>))"

definition NewStore :: "heap \<Rightarrow> Device list \<Rightarrow> heap \<times> Store" where
  "NewStore h devs = NewStore_loop devs (h, \<lparr>devices = [], order = []\<rparr>)"

fun List_loop :: "Store \<Rightarrow> string list \<Rightarrow> heap \<times> Device list \<Rightarrow> heap \<times> Device list" where
  "List_loop s [] (h, out) = (h, out)"
| "List_loop s (did # rest) (h, out) =
     (case map_of (devices s) did of
        None \<Rightarrow> List_loop s rest (h, out)
      | Some device \<Rightarrow>
          (let (h', copyDevice) = copy_device h device
           in List_loop s rest (h', out @ [copyDevice])))"

definition List :: "heap \<Rightarrow> Store \<Rightarrow> heap \<times> Device list" where
  "List h s = List_loop s (order s) (h, [])"

definition Get :: "heap \<Rightarrow> Store \<Rightarrow> string \<Rightarrow> heap \<times> Device option" where
  "Get h s did =
     (case map_of (devices s) did of
        None \<Rightarrow> (h, None)
      | Some device \<Rightarrow> (let (h', copyDevice) = copy_device h device in (h', Some copyDevice)))"

text \<open>The loop of \<^verbatim>\<open>Update\<close>: \<^verbatim>\<open>device.State[key] = normalizeValue(device.Kind, key, value)\<close>.\<close>

fun assign_entries :: "platform \<Rightarrow> Device \<Rightarrow> gomap \<Rightarrow> heap \<Rightarrow> heap option" where
  "assign_entries P device [] h = Some h"
| "assign_entries P device ((key, value) # rest) h =
     (case State device of
        None \<Rightarrow> None
      | Some a \<Rightarrow>
          assign_entries P device rest
            (map_assign h a key (normalizeValue P (Kind device) key value)))"

text \<open>
  \<open>state\<close> is the map the caller passes; \<^verbatim>\<open>Update\<close> only reads it.
\<close>

definition Update ::
  "platform \<Rightarrow> heap \<Rightarrow> Store \<Rightarrow> string \<Rightarrow> gomap option \<Rightarrow> heap \<times> (error + Device)" where
  "Update P h s did state =
     (case map_of (devices s) did of
        None \<Rightarrow> (h, Inl (ErrorString (''device not found: '' @ did)))
      | Some device \<Rightarrow>
          (case assign_entries P device (map_entries state) h of
             None \<Rightarrow> (h, Inl (RuntimePanic ''assignment to entry in nil map''))
           | Some h1 \<Rightarrow>
               (let (h2, copyDevice) = copy_device h1 device in (h2, Inr copyDevice))))"

section \<open>Loading the catalog\<close>

text \<open>
  The outcome of opening \<^verbatim>\<open>devices.yaml\<close> and decoding it into a \<^verbatim>\<open>DeviceCatalog\<close>; the
  decoder has put the state maps of the decoded devices into the heap.
  \<^verbatim>\<open>catalog.Devices\<close> is a \<^verbatim>\<open>[]*Device\<close>: an entry is a pointer to a decoded device or
  nil, which is what the YAML decoder makes of a null entry of the list.
\<close>

datatype catalog_file = OpenFailed error | DecodeFailed error | Decoded "Device option list"

text \<open>
  The loop of \<^verbatim>\<open>loadDevices\<close>.  It reads \<^verbatim>\<open>device.ID\<close> with no nil check, so a nil entry
  is a runtime panic.  The slice that is returned when the loop ends is given by the
  devices its entries point to; none of them is nil then.
\<close>

fun loadDevices_loop ::
  "string list \<Rightarrow> Device option list \<Rightarrow> heap \<Rightarrow> heap \<times> (error + Device list)" where
  "loadDevices_loop seen [] h = (h, Inr [])"
| "loadDevices_loop seen (None # rest) h =
     (h, Inl (RuntimePanic ''invalid memory address or nil pointer dereference''))"
| "loadDevices_loop seen (Some device # rest) h =
     (if ID device = [] \<or> Name device = [] \<or> Kind device = [] then
        (h, Inl (ErrorString ''device missing id, name, or kind''))
      else if ID device \<in> set seen then
        (h, Inl (ErrorString (''duplicate device id: '' @ ID device)))
      else
        (let (h', device') =
               (case State device of
                  None \<Rightarrow> (let (h', a) = new_map h [] in (h', device\<lparr>State := Some a\<rparr>))
                | Some a \<Rightarrow> (h, device))
         in case loadDevices_loop (ID device # seen) rest h' of
              (h'', Inl err) \<Rightarrow> (h'', Inl err)
            | (h'', Inr ds) \<Rightarrow> (h'', Inr (device' # ds))))"

definition loadDevices :: "heap \<Rightarrow> catalog_file \<Rightarrow> heap \<times> (error + Device list)" where
  "loadDevices h file =
     (case file of
        OpenFailed err \<Rightarrow> (h, Inl err)
      | DecodeFailed err \<Rightarrow> (h, Inl err)
      | Decoded catalog \<Rightarrow>
          if length catalog = 0 then (h, Inl (ErrorString ''no devices defined''))
          else loadDevices_loop [] catalog h)"

text \<open>
  The start of \<^verbatim>\<open>main\<close>: \<^verbatim>\<open>log.Fatalf\<close> on a load error, else the store is built.  A
  panic in \<^verbatim>\<open>loadDevices\<close> ends the process before either.
\<close>

datatype startup = Fatal string | Crashed string | Serving heap Store

definition main_startup :: "heap \<Rightarrow> catalog_file \<Rightarrow> startup" where
  "main_startup h file =
     (case loadDevices h file of
        (h', Inl (ErrorString m)) \<Rightarrow> Fatal (''failed to load devices: '' @ m)
      | (h', Inl (RuntimePanic m)) \<Rightarrow> Crashed m
      | (h', Inr devs) \<Rightarrow> (let (h'', store) = NewStore h' devs in Serving h'' store))"

section \<open>The hub and the HTTP handler\<close>

type_synonym conn = nat

record WSMessage =
  msg_Type :: string
  msg_Device :: "Device option"
  msg_Devices :: "Device list"
  msg_Error :: string

record WSSetMessage =
  set_Type :: string
  set_ID :: string
  set_State :: "gomap option"

definition error_reply :: "string \<Rightarrow> WSMessage" where
  "error_reply m = \<lparr>msg_Type = ''error'', msg_Device = None, msg_Devices = [], msg_Error = m\<rparr>"

definition update_message :: "Device \<Rightarrow> WSMessage" where
  "update_message device =
     \<lparr>msg_Type = ''update'', msg_Device = Some device, msg_Devices = [], msg_Error = []\<rparr>"

text \<open>
  What one round of the read loop of \<^verbatim>\<open>HandleWS\<close> does with a decoded message: it writes
  to the connection the message came from, or sends a device on the \<^verbatim>\<open>broadcast\<close> channel
  (or the goroutine panics).
\<close>

datatype effect = WriteJSON conn WSMessage | Broadcast Device | Panics string

definition HandleWS_message ::
  "platform \<Rightarrow> heap \<Rightarrow> Store \<Rightarrow> conn \<Rightarrow> WSSetMessage \<Rightarrow> heap \<times> effect list" where
  "HandleWS_message P h s c incoming =
     (if set_Type incoming \<noteq> ''set'' then
        (h, [WriteJSON c (error_reply ''unsupported message type'')])
      else if set_ID incoming = [] then
        (h, [WriteJSON c (error_reply ''missing device id'')])
      else
        (case Update P h s (set_ID incoming) (set_State incoming) of
           (h', Inl (ErrorString m)) \<Rightarrow> (h', [WriteJSON c (error_reply m)])
         | (h', Inl (RuntimePanic m)) \<Rightarrow> (h', [Panics m])
         | (h', Inr updated) \<Rightarrow> (h', [Broadcast updated])))"

text \<open>
  \<^verbatim>\<open>broadcastMessage\<close>: every registered client is written to; \<open>write_ok c\<close> tells whether
  \<^verbatim>\<open>WriteJSON\<close> on \<open>c\<close> returns nil.  A client whose write fails is closed and removed.  The
  result is the list of deliveries and the clients that remain.
\<close>

fun broadcastMessage ::
  "(conn \<Rightarrow> bool) \<Rightarrow> conn list \<Rightarrow> WSMessage \<Rightarrow> (conn \<times> WSMessage) list \<times> conn list" where
  "broadcastMessage write_ok [] message = ([], [])"
| "broadcastMessage write_ok (client # rest) message =
     (let (sent, remaining) = broadcastMessage write_ok rest message
      in if write_ok client then ((client, message) # sent, client # remaining)
         else (sent, remaining))"

text \<open>One round of \<^verbatim>\<open>Run\<close>: a device taken from the channel is broadcast as an update.\<close>

definition Run_step ::
  "(conn \<Rightarrow> bool) \<Rightarrow> conn list \<Rightarrow> Device \<Rightarrow> (conn \<times> WSMessage) list \<times> conn list" where
  "Run_step write_ok clients device = broadcastMessage write_ok clients (update_message device)"

text \<open>
  The handler of \<^verbatim>\<open>/api/devices/\<close>.  \<open>request\<close> is the decoded request body of a PUT:
  \<open>None\<close> when decoding fails, else the \<^verbatim>\<open>state\<close> field (\<open>Some None\<close> when it is absent or
  null).  The result is the response (none after a panic) and the devices sent on the
  \<^verbatim>\<open>broadcast\<close> channel.
\<close>

datatype http_method = GET | PUT | OtherMethod

datatype body = ErrorBody string | DeviceBody Device

record response =
  status :: nat
  payload :: body

definition writeError :: "nat \<Rightarrow> string \<Rightarrow> response" where
  "writeError st message = \<lparr>status = st, payload = ErrorBody message\<rparr>"

definition device_handler ::
  "platform \<Rightarrow> heap \<Rightarrow> Store \<Rightarrow> http_method \<Rightarrow> string \<Rightarrow> gomap option option
    \<Rightarrow> heap \<times> response option \<times> Device list" where
  "device_handler P h s method did request =
     (if did = [] then (h, Some (writeError 400 ''missing device id''), [])
      else case method of
        GET \<Rightarrow>
          (case Get h s did of
             (h', None) \<Rightarrow> (h', Some (writeError 404 ''device not found''), [])
           | (h', Some device) \<Rightarrow> (h', Some \<lparr>status = 200, payload = DeviceBody device\<rparr>, []))
      | PUT \<Rightarrow>
          (case request of
             None \<Rightarrow> (h, Some (writeError 400 ''invalid json''), [])
           | Some state \<Rightarrow>
               if length (map_entries state) = 0 then
                 (h, Some (writeError 400 ''missing state''), [])
               else
                 (case Update P h s did state of
                    (h', Inl (ErrorString m)) \<Rightarrow> (h', Some (writeError 404 m), [])
                  | (h', Inl (RuntimePanic m)) \<Rightarrow> (h', None, [])
                  | (h', Inr updated) \<Rightarrow>
                      (h', Some \<lparr>status = 200, payload = DeviceBody updated\<rparr>, [updated])))
      | OtherMethod \<Rightarrow> (h, Some (writeError 405 ''method not allowed''), []))"

section \<open>Predicates the claims are stated with\<close>

text \<open>The entries of a device's state map; a nil map has none.\<close>

definition state_of :: "heap \<Rightarrow> Device \<Rightarrow> gomap" where
  "state_of h device = (case State device of None \<Rightarrow> [] | Some a \<Rightarrow> entries h a)"

text \<open>Keys are unique in every map of the heap, as they are in a Go map.\<close>

definition heap_ok :: "heap \<Rightarrow> bool" where
  "heap_ok h = list_all (\<lambda>m. distinct (map fst m)) h"

text \<open>
  What \<^verbatim>\<open>NewStore\<close> sets up: every device of the store has a state map of its own that is
  allocated in the heap.
\<close>

definition store_ok :: "heap \<Rightarrow> Store \<Rightarrow> bool" where
  "store_ok h s =
     (heap_ok h
      \<and> list_all (\<lambda>(did, device). case State device of None \<Rightarrow> False | Some a \<Rightarrow> a < length h)
            (devices s)
      \<and> distinct (map (\<lambda>(did, device). State device) (devices s)))"

text \<open>A device's state map is nil or allocated in the heap: no pointer dangles in Go.\<close>

definition allocated :: "heap \<Rightarrow> Device \<Rightarrow> bool" where
  "allocated h device = (case State device of None \<Rightarrow> True | Some a \<Rightarrow> a < length h)"

text \<open>The devices that the non-nil entries of a catalog point to.\<close>

fun non_nil :: "Device option list \<Rightarrow> Device list" where
  "non_nil [] = []"
| "non_nil (None # rest) = non_nil rest"
| "non_nil (Some device # rest) = device # non_nil rest"

text \<open>The heap and the devices as the YAML decoder leaves them.\<close>

definition catalog_ok :: "heap \<Rightarrow> Device list \<Rightarrow> bool" where
  "catalog_ok h catalog = (heap_ok h \<and> list_all (allocated h) catalog)"

definition fields_present :: "Device \<Rightarrow> bool" where
  "fields_present device = (ID device \<noteq> [] \<and> Name device \<noteq> [] \<and> Kind device \<noteq> [])"

text \<open>Copies of devices whose state maps are at the addresses \<open>n\<close>, \<open>n + 1\<close>, and so on.\<close>

fun snapshots :: "addr \<Rightarrow> Device list \<Rightarrow> Device list" where
  "snapshots n [] = []"
| "snapshots n (device # rest) = device\<lparr>State := Some n\<rparr> # snapshots (Suc n) rest"

text \<open>
  The devices that a list of ids names and the store holds, in the order of the list:
  what \<^verbatim>\<open>List\<close> copies when the list is \<^verbatim>\<open>order\<close>.
\<close>

definition held :: "Store \<Rightarrow> string list \<Rightarrow> Device list" where
  "held s ids =
     map (\<lambda>did. the (map_of (devices s) did)) (filter (\<lambda>did. map_of (devices s) did \<noteq> None) ids)"

text \<open>
  A snapshot is detached from the registry when its state map is allocated and is not the
  state map of a device the registry holds.
\<close>

definition detached :: "heap \<Rightarrow> Store \<Rightarrow> Device \<Rightarrow> bool" where
  "detached h s snapshot =
     (case State snapshot of
        None \<Rightarrow> False
      | Some b \<Rightarrow> b < length h \<and> list_all (\<lambda>(did, device). State device \<noteq> Some b) (devices s))"

text \<open>The normalized domain of a kind and key, as the policy table of the spec gives it.\<close>

definition numeric_kind :: "string \<Rightarrow> bool" where
  "numeric_kind kind = (kind = ''blind'' \<or> kind = ''humidifier'')"

definition numeric_key :: "string \<Rightarrow> bool" where
  "numeric_key key = (key = ''position'' \<or> key = ''level'')"

definition boolean_kind :: "string \<Rightarrow> bool" where
  "boolean_kind kind =
     (kind = ''toggle'' \<or> kind = ''lock'' \<or> kind = ''sensor'' \<or> kind = ''toaster''
      \<or> kind = ''doors'' \<or> kind = ''vacuum'')"

definition boolean_key :: "string \<Rightarrow> bool" where
  "boolean_key key = (key = ''on'' \<or> key = ''open'' \<or> key = ''locked'')"

fun is_percent :: "val \<Rightarrow> bool" where
  "is_percent (VInt n) = (0 \<le> n \<and> n \<le> 100)"
| "is_percent _ = False"

fun is_temperature :: "val \<Rightarrow> bool" where
  "is_temperature (VFloat64 (Fin x)) = (10 \<le> x \<and> x \<le> 30)"
| "is_temperature _ = False"

fun is_boolean :: "val \<Rightarrow> bool" where
  "is_boolean (VBool b) = True"
| "is_boolean _ = False"

definition in_domain :: "string \<Rightarrow> string \<Rightarrow> val \<Rightarrow> bool" where
  "in_domain kind key v =
     (if numeric_kind kind \<and> numeric_key key then is_percent v
      else if kind = ''thermostat'' \<and> key = ''temperature'' then is_temperature v
      else if boolean_kind kind \<and> boolean_key key then is_boolean v
      else True)"

definition device_in_domain :: "heap \<Rightarrow> Device \<Rightarrow> bool" where
  "device_in_domain h device =
     list_all (\<lambda>(key, v). in_domain (Kind device) key v) (state_of h device)"

definition registry_in_domain :: "heap \<Rightarrow> Store \<Rightarrow> bool" where
  "registry_in_domain h s = list_all (\<lambda>(did, device). device_in_domain h device) (devices s)"

text \<open>A value that the thermostat rule turns into NaN.  JSON text cannot carry one.\<close>

fun is_nan :: "platform \<Rightarrow> val \<Rightarrow> bool" where
  "is_nan P (VFloat64 f) = (f = NaN)"
| "is_nan P (VFloat32 f) = (f = NaN)"
| "is_nan P (VNumber s) = (ParseFloat P s = Some NaN)"
| "is_nan P _ = False"

definition nan_free :: "platform \<Rightarrow> gomap option \<Rightarrow> bool" where
  "nan_free P state =
     list_all (\<lambda>(key, v). \<not> is_nan P v) (map_entries state)"

text \<open>A sequence of \<^verbatim>\<open>Update\<close> calls, whatever each returns.\<close>

fun Updates :: "platform \<Rightarrow> (string \<times> gomap option) list \<Rightarrow> heap \<Rightarrow> Store \<Rightarrow> heap" where
  "Updates P [] h s = h"
| "Updates P ((did, state) # rest) h s = Updates P rest (fst (Update P h s did state)) s"

text \<open>
  Values whose dynamic type the numeric rules, respectively the boolean rule, have no case
  for.
\<close>

fun no_number :: "val \<Rightarrow> bool" where
  "no_number VNil = True"
| "no_number (VBool b) = True"
| "no_number (VString s) = True"
| "no_number (VMap a) = True"
| "no_number (VSlice a) = True"
| "no_number _ = False"

fun no_boolean :: "val \<Rightarrow> bool" where
  "no_boolean VNil = True"
| "no_boolean (VFloat32 f) = True"
| "no_boolean (VNumber s) = True"
| "no_boolean (VMap a) = True"
| "no_boolean (VSlice a) = True"
| "no_boolean _ = False"

text \<open>The device's map after the assignments of the loop of \<^verbatim>\<open>Update\<close>.\<close>

definition assigned :: "platform \<Rightarrow> string \<Rightarrow> gomap \<Rightarrow> gomap \<Rightarrow> gomap" where
  "assigned P kind es m0 =
     fold (\<lambda>(key, value) m. AList.update key (normalizeValue P kind key value) m) es m0"

text \<open>The fields of a device other than its state map.\<close>

definition same_identity :: "Device \<Rightarrow> Device \<Rightarrow> bool" where
  "same_identity a b = (ID a = ID b \<and> Name a = Name b \<and> Kind a = Kind b \<and> Room a = Room b)"

text \<open>The state of the whole registry as a caller of \<^verbatim>\<open>Get\<close> sees it, one level deep.\<close>

definition registry_state :: "heap \<Rightarrow> Store \<Rightarrow> (string \<times> Device \<times> gomap) list" where
  "registry_state h s = map (\<lambda>(did, device). (did, device, state_of h device)) (devices s)"

section \<open>The policy table of the spec\<close>

text \<open>
  The rules of the policy table, written from the table and not from the code.  The two
  numeric rules are functions of the number that a value carries: \<^emph>\<open>round to nearest
  integer, clamp to [0,100]\<close> (of two nearest integers the upper one is taken) and \<^emph>\<open>clamp
  to [10.0, 30.0] as floating point\<close>.
\<close>

definition nearest_percent :: "rat \<Rightarrow> val" where
  "nearest_percent x = VInt (max 0 (min 100 \<lfloor>x + 1 / 2\<rfloor>))"

definition clamp_temperature :: "rat \<Rightarrow> val" where
  "clamp_temperature x = VFloat64 (Fin (max 10 (min 30 x)))"

text \<open>
  A float whose conversion to \<^verbatim>\<open>int\<close> Go defines: it is finite and its integer part is an
  \<^verbatim>\<open>int\<close>.  The conversion of any other float is implementation-dependent.
\<close>

definition fits_int :: "float \<Rightarrow> bool" where
  "fits_int f =
     (case f of
        Fin x \<Rightarrow> - (2 ^ 63) \<le> (if 0 \<le> x then \<lfloor>x\<rfloor> else \<lceil>x\<rceil>)
                 \<and> (if 0 \<le> x then \<lfloor>x\<rfloor> else \<lceil>x\<rceil>) < 2 ^ 63
      | _ \<Rightarrow> False)"

text \<open>
  The \<^verbatim>\<open>float64\<close> (\<^verbatim>\<open>float32\<close>) numbers at which the position and level rule is stated:
  every number of the format but the largest one below one half, \<open>1 / 2 - 1 / 2 ^ 54\<close>
  (\<open>1 / 2 - 1 / 2 ^ 25\<close>), and those whose sum with \<^verbatim>\<open>0.5\<close>, computed in the format, has no
  defined conversion to \<^verbatim>\<open>int\<close>.
\<close>

definition regular64 :: "rat \<Rightarrow> bool" where
  "regular64 x =
     (round64 x = Fin x \<and> x \<noteq> 1 / 2 - 1 / 2 ^ 54 \<and> fits_int (round64 (x + 1 / 2)))"

definition regular32 :: "rat \<Rightarrow> bool" where
  "regular32 x =
     (round32 x = Fin x \<and> x \<noteq> 1 / 2 - 1 / 2 ^ 25 \<and> fits_int (round32 (x + 1 / 2)))"

text \<open>
  The position and level rule on a value.  The number of an \<^verbatim>\<open>int\<close> or \<^verbatim>\<open>int64\<close> is
  itself, the number of a \<^verbatim>\<open>json.Number\<close> is the integer its text is the literal of.  The
  rule is left open (\<open>None\<close>) at a float that is not regular and at an infinity or NaN.  A
  value that is no number, a plain string among them, and a \<^verbatim>\<open>json.Number\<close> that is no
  integer literal give the lower bound 0.
\<close>

fun policy_percent :: "val \<Rightarrow> val option" where
  "policy_percent (VInt n) = Some (nearest_percent (of_int n))"
| "policy_percent (VInt64 n) = Some (nearest_percent (of_int n))"
| "policy_percent (VFloat64 (Fin x)) =
     (if regular64 x then Some (nearest_percent x) else None)"
| "policy_percent (VFloat64 _) = None"
| "policy_percent (VFloat32 (Fin x)) =
     (if regular32 x then Some (nearest_percent x) else None)"
| "policy_percent (VFloat32 _) = None"
| "policy_percent (VNumber s) =
     (case ParseInt s of Some n \<Rightarrow> Some (nearest_percent (of_int n)) | None \<Rightarrow> Some (VInt 0))"
| "policy_percent _ = Some (VInt 0)"

text \<open>
  The temperature rule on a value.  An infinity is clamped to the nearer bound, the rule is
  left open at NaN; a value that is no number and a \<^verbatim>\<open>json.Number\<close> that
  \<^verbatim>\<open>strconv.ParseFloat\<close> rejects give the lower bound 10.
\<close>

fun clamp_float :: "float \<Rightarrow> val option" where
  "clamp_float (Fin x) = Some (clamp_temperature x)"
| "clamp_float PInf = Some (VFloat64 (Fin 30))"
| "clamp_float NInf = Some (VFloat64 (Fin 10))"
| "clamp_float NaN = None"

fun policy_temperature :: "platform \<Rightarrow> val \<Rightarrow> val option" where
  "policy_temperature P (VInt n) = Some (clamp_temperature (of_int n))"
| "policy_temperature P (VInt64 n) = Some (clamp_temperature (of_int n))"
| "policy_temperature P (VFloat64 f) = clamp_float f"
| "policy_temperature P (VFloat32 f) = clamp_float f"
| "policy_temperature P (VNumber s) =
     (case ParseFloat P s of Some f \<Rightarrow> clamp_float f | None \<Rightarrow> Some (VFloat64 (Fin 10)))"
| "policy_temperature P _ = Some (VFloat64 (Fin 10))"

text \<open>
  The boolean rule: \<^emph>\<open>true literal, numeric nonzero, or case-insensitive string
  "true"/"1"/"on" gives true; else false\<close>.  The numbers are those of the types \<^verbatim>\<open>int\<close>,
  \<^verbatim>\<open>int64\<close> and \<^verbatim>\<open>float64\<close>.
\<close>

fun policy_boolean :: "val \<Rightarrow> bool" where
  "policy_boolean (VBool b) = b"
| "policy_boolean (VInt n) = (n \<noteq> 0)"
| "policy_boolean (VInt64 n) = (n \<noteq> 0)"
| "policy_boolean (VFloat64 f) = (f \<noteq> Fin 0)"
| "policy_boolean (VString s) =
     (map to_lower s = ''true'' \<or> s = ''1'' \<or> map to_lower s = ''on'')"
| "policy_boolean _ = False"

text \<open>The mode rule: \<^emph>\<open>trim surrounding whitespace if the value is textual; otherwise
  passthrough\<close>.\<close>

fun policy_mode :: "platform \<Rightarrow> val \<Rightarrow> val" where
  "policy_mode P (VString s) = VString (TrimSpace P s)"
| "policy_mode P v = v"

text \<open>The table: the rule of a kind and key, and passthrough for any other key.\<close>

definition policy :: "platform \<Rightarrow> string \<Rightarrow> string \<Rightarrow> val \<Rightarrow> val option" where
  "policy P kind key v =
     (if numeric_kind kind \<and> numeric_key key then policy_percent v
      else if kind = ''thermostat'' \<and> key = ''temperature'' then policy_temperature P v
      else if boolean_kind kind \<and> boolean_key key then Some (VBool (policy_boolean v))
      else if boolean_kind kind \<and> key = ''mode'' then Some (policy_mode P v)
      else Some v)"

text \<open>
  The merge the spec describes: a key of the partial state maps to what the policy table
  makes of the supplied value, any other key keeps its prior value.
\<close>

definition policy_merge ::
  "platform \<Rightarrow> string \<Rightarrow> gomap \<Rightarrow> gomap option \<Rightarrow> string \<Rightarrow> val option" where
  "policy_merge P kind prior state key =
     (case map_of (map_entries state) key of
        Some v \<Rightarrow> policy P kind key v
      | None \<Rightarrow> map_of prior key)"

text \<open>The partial states at every value of which the policy table gives a result.\<close>

definition policy_defined :: "platform \<Rightarrow> string \<Rightarrow> gomap option \<Rightarrow> bool" where
  "policy_defined P kind state =
     list_all (\<lambda>(key, v). policy P kind key v \<noteq> None) (map_entries state)"

section \<open>Concrete inputs\<close>

text \<open>
  A platform to evaluate the model on: the conversion of an unrepresentable float gives
  the smallest \<^verbatim>\<open>int64\<close> (what amd64 does), \<^verbatim>\<open>ParseFloat\<close> is given by the one entry of
  \<^verbatim>\<open>strconv.ParseFloat\<close> that the examples use (any other string is reported as an error,
  as the text \<^verbatim>\<open>warm\<close> is), and \<^verbatim>\<open>TrimSpace\<close> trims the ASCII white space.
\<close>

definition is_space :: "char \<Rightarrow> bool" where
  "is_space c = ((of_char c :: nat) \<in> {9, 10, 11, 12, 13, 32})"

definition amd64 :: platform where
  "amd64 =
     \<lparr>conv_oor = (\<lambda>f. - (2 ^ 63)),
      ParseFloat = map_of [(''42'', Fin 42)],
      TrimSpace = (\<lambda>s. rev (dropWhile is_space (rev (dropWhile is_space s))))\<rparr>"

definition blind1 :: Device where
  "blind1 = \<lparr>ID = ''blind1'', Name = ''Living room blind'', Kind = ''blind'', Room = ''living'',
     State = Some 0\<rparr>"

definition thermo1 :: Device where
  "thermo1 = \<lparr>ID = ''thermo1'', Name = ''Thermostat'', Kind = ''thermostat'', Room = ''hall'',
     State = Some 1\<rparr>"

definition lamp1 :: Device where
  "lamp1 = \<lparr>ID = ''lamp1'', Name = ''Lamp'', Kind = ''toggle'', Room = ''living'',
     State = Some 2\<rparr>"

text \<open>The heap after decoding a catalog with these three devices, and the catalog.\<close>

definition heap0 :: heap where
  "heap0 =
     [[(''position'', VInt 20)],
      [(''temperature'', VFloat64 (Fin 21))],
      [(''on'', VBool False), (''scene'', VMap 3)],
      [(''dim'', VInt 1)]]"

definition catalog0 :: "Device list" where
  "catalog0 = [blind1, thermo1, lamp1]"

text \<open>The store \<^verbatim>\<open>NewStore\<close> builds from it, and the heap then.\<close>

definition heap1 :: heap where
  "heap1 = heap0 @
     [[(''position'', VInt 20)],
      [(''temperature'', VFloat64 (Fin 21))],
      [(''on'', VBool False), (''scene'', VMap 3)]]"

definition store1 :: Store where
  "store1 =
     \<lparr>devices =
        [(''blind1'', blind1\<lparr>State := Some 4\<rparr>),
         (''thermo1'', thermo1\<lparr>State := Some 5\<rparr>),
         (''lamp1'', lamp1\<lparr>State := Some 6\<rparr>)],
      order = [''blind1'', ''thermo1'', ''lamp1'']\<rparr>"

text \<open>The heap after a \<^verbatim>\<open>Get\<close> of the lamp on that store.\<close>

definition heap2 :: heap where
  "heap2 = heap1 @ [[(''on'', VBool False), (''scene'', VMap 3)]]"

text \<open>A catalog whose blind is configured with a position of 150.\<close>

definition heap_150 :: heap where
  "heap_150 = [[(''position'', VInt 150)]]"

definition store_150 :: Store where
  "store_150 = \<lparr>devices = [(''blind1'', blind1\<lparr>State := Some 1\<rparr>)], order = [''blind1'']\<rparr>"

section \<open>Rounding to a binary format\<close>

lemma powi2_mono: "a \<le> b \<Longrightarrow> (2::rat) powi a \<le> 2 powi b"
  by (rule power_int_increasing) simp_all

lemma ilog2_bounds:
  assumes "0 < x"
  shows "2 powi ilog2 x \<le> x" and "x < 2 powi (ilog2 x + 1)"
proof -
  obtain n d where nd: "quotient_of x = (n, d)" by (cases "quotient_of x")
  have d: "0 < d" using nd by (rule quotient_of_denom_pos)
  have x: "x = of_int n / of_int d" using nd by (rule quotient_of_div)
  have n: "0 < n" using assms d x by (simp add: zero_less_divide_iff)
  define a where "a = floorlog 2 (nat n)"
  define b where "b = floorlog 2 (nat d)"
  have a: "2 ^ (a - 1) \<le> nat n" "nat n < 2 ^ a"
    using floorlog_bounds [of "nat n" 2] n by (simp_all add: a_def)
  have b: "2 ^ (b - 1) \<le> nat d" "nat d < 2 ^ b"
    using floorlog_bounds [of "nat d" 2] d by (simp_all add: b_def)
  have a0: "0 < a" using n floorlog_eq_zero_iff [of 2 "nat n"] by (simp add: a_def)
  have b0: "0 < b" using d floorlog_eq_zero_iff [of 2 "nat d"] by (simp add: b_def)
  have "(of_nat (2 ^ (a - 1)) :: rat) \<le> of_nat (nat n)" "(of_nat (nat n) :: rat) < of_nat (2 ^ a)"
    using a by (simp_all only: of_nat_le_iff of_nat_less_iff)
  then have n1: "(2::rat) ^ (a - 1) \<le> of_int n" "(of_int n :: rat) < 2 ^ a"
    using n by simp_all
  have "(of_nat (2 ^ (b - 1)) :: rat) \<le> of_nat (nat d)" "(of_nat (nat d) :: rat) < of_nat (2 ^ b)"
    using b by (simp_all only: of_nat_le_iff of_nat_less_iff)
  then have d1: "(2::rat) ^ (b - 1) \<le> of_int d" "(of_int d :: rat) < 2 ^ b"
    using d by simp_all
  have ea: "int (a - 1) = int a - 1" using a0 by simp
  have eb: "int (b - 1) = int b - 1" using b0 by simp
  have "(2::rat) powi (int a - int b - 1) = 2 powi (int (a - 1) - int b)"
    by (rule arg_cong [where f = "power_int 2"]) (simp only: ea)
  also have "\<dots> = 2 ^ (a - 1) / 2 ^ b" by (simp add: power_int_diff)
  also have "\<dots> \<le> of_int n / of_int d"
    using n1 d1 d n by (intro frac_le) simp_all
  finally have lo: "2 powi (int a - int b - 1) \<le> x" by (simp add: x)
  have "of_int n / of_int d < (2::rat) ^ a / 2 ^ (b - 1)"
    using n1 d1 n d by (intro frac_less) simp_all
  also have "\<dots> = 2 powi (int a - int (b - 1))" by (simp add: power_int_diff)
  also have "\<dots> = 2 powi (int a - int b + 1)"
    by (rule arg_cong [where f = "power_int 2"]) (simp only: eb)
  finally have hi: "x < 2 powi (int a - int b + 1)" by (simp add: x)
  have e: "ilog2 x = (if 2 powi (int a - int b) \<le> x then int a - int b else int a - int b - 1)"
    by (simp add: ilog2_def nd a_def b_def Let_def)
  show "2 powi ilog2 x \<le> x" using lo by (simp add: e)
  show "x < 2 powi (ilog2 x + 1)" using hi by (auto simp add: e not_le)
qed

lemma ilog2_eqI:
  assumes "2 powi e \<le> x" and "x < 2 powi (e + 1)"
  shows "ilog2 x = e"
proof -
  have "0 < x" using assms(1) by (rule less_le_trans [rotated]) simp
  note b = ilog2_bounds [OF this]
  have "\<not> ilog2 x < e"
  proof
    assume "ilog2 x < e"
    then have "2 powi (ilog2 x + 1) \<le> (2::rat) powi e" by (intro powi2_mono) simp
    with b(2) assms(1) show False by simp
  qed
  moreover have "\<not> e < ilog2 x"
  proof
    assume "e < ilog2 x"
    then have "2 powi (e + 1) \<le> (2::rat) powi ilog2 x" by (intro powi2_mono) simp
    with b(1) assms(2) show False by simp
  qed
  ultimately show ?thesis by simp
qed

lemma round_half_even_of_int [simp]: "round_half_even (of_int m) = m"
  by (simp add: round_half_even_def)

lemma round_half_even_tie:
  "round_half_even (of_int f + 1 / 2) = (if even f then f else f + 1)"
proof -
  have "\<lfloor>(of_int f + 1 / 2 :: rat)\<rfloor> = f" by (rule floor_unique) simp_all
  then show ?thesis by (simp add: round_half_even_def)
qed

text \<open>A number that fits the format is its own rounding.\<close>

lemma round_to_format_exact:
  assumes x: "x = of_int m * 2 powi k"
    and m: "\<bar>m\<bar> < 2 ^ p"
    and k: "emin - int p + 1 \<le> k"
    and r: "\<bar>x\<bar> < 2 powi (emax + 1)"
  shows "round_to_format p emin emax x = Fin x"
proof (cases "x = 0")
  case True
  then show ?thesis by (simp add: round_to_format_def)
next
  case False
  then have pos: "0 < \<bar>x\<bar>" by simp
  define e where "e = max (ilog2 \<bar>x\<bar>) emin"
  have "2 powi ilog2 \<bar>x\<bar> \<le> \<bar>x\<bar>" using ilog2_bounds(1) [OF pos] .
  also have "\<bar>x\<bar> = of_int \<bar>m\<bar> * 2 powi k" by (simp add: x abs_mult)
  also have "\<dots> < 2 ^ p * 2 powi k"
  proof -
    have "(of_int \<bar>m\<bar> :: rat) < of_int (2 ^ p)" using m by (simp only: of_int_less_iff)
    then show ?thesis by simp
  qed
  also have "\<dots> = 2 powi (int p + k)" by (simp add: power_int_add)
  finally have lt: "2 powi ilog2 \<bar>x\<bar> < (2::rat) powi (int p + k)" .
  have "ilog2 \<bar>x\<bar> < int p + k"
  proof (rule ccontr)
    assume "\<not> ilog2 \<bar>x\<bar> < int p + k"
    then have "(2::rat) powi (int p + k) \<le> 2 powi ilog2 \<bar>x\<bar>" by (intro powi2_mono) simp
    with lt show False by simp
  qed
  then have j: "0 \<le> k - (e - int p + 1)" using k by (simp add: e_def)
  define j where "j = nat (k - (e - int p + 1))"
  have kj: "k = (e - int p + 1) + int j" using j by (simp add: j_def)
  have xq: "x / 2 powi (e - int p + 1) = of_int (m * 2 ^ j)"
    by (simp add: x kj power_int_add)
  have "round_to_format p emin emax x =
      (let r = of_int (round_half_even (x / 2 powi (e - int p + 1))) * 2 powi (e - int p + 1)
       in if 2 powi (emax + 1) \<le> \<bar>r\<bar> then (if 0 < x then PInf else NInf) else Fin r)"
    using False by (simp add: round_to_format_def e_def Let_def)
  also have "of_int (round_half_even (x / 2 powi (e - int p + 1))) * 2 powi (e - int p + 1) = x"
    unfolding xq round_half_even_of_int by (simp add: x kj power_int_add)
  finally show ?thesis using r by (simp add: Let_def not_le [symmetric])
qed

lemma round64_exact:
  "x = of_int m * 2 powi k \<Longrightarrow> \<bar>m\<bar> < 2 ^ 53 \<Longrightarrow> - 1074 \<le> k \<Longrightarrow> \<bar>x\<bar> < 2 ^ 1024
    \<Longrightarrow> round64 x = Fin x"
  unfolding round64_def by (rule round_to_format_exact [where m = m and k = k]) simp_all

lemma round32_exact:
  "x = of_int m * 2 powi k \<Longrightarrow> \<bar>m\<bar> < 2 ^ 24 \<Longrightarrow> - 149 \<le> k \<Longrightarrow> \<bar>x\<bar> < 2 ^ 128
    \<Longrightarrow> round32 x = Fin x"
  unfolding round32_def by (rule round_to_format_exact [where m = m and k = k]) simp_all

text \<open>How a number between two powers of two is rounded.\<close>

lemma round_to_format_eval:
  assumes "2 powi e0 \<le> \<bar>x\<bar>" and "\<bar>x\<bar> < 2 powi (e0 + 1)"
    and "q = 2 powi (max e0 emin - int p + 1)"
    and "round_half_even (x / q) = n"
    and "\<bar>of_int n * q\<bar> < 2 powi (emax + 1)"
  shows "round_to_format p emin emax x = Fin (of_int n * q)"
proof -
  have "0 < \<bar>x\<bar>" using assms(1) by (rule less_le_trans [rotated]) simp
  then have "x \<noteq> 0" by simp
  moreover have "ilog2 \<bar>x\<bar> = e0" using assms(1,2) by (rule ilog2_eqI)
  ultimately show ?thesis
    using assms(5) by (simp add: round_to_format_def Let_def assms(3) [symmetric] assms(4) not_le [symmetric])
qed

text \<open>
  The number \<open>1 - 1 / 2 ^ 54\<close> lies halfway between the neighbouring \<^verbatim>\<open>float64\<close> values
  \<open>1 - 1 / 2 ^ 53\<close> and \<open>1\<close>; the tie goes to the even significand, which is that of \<open>1\<close>.
\<close>

lemma round64_below_one: "round64 (1 - 1 / 2 ^ 54) = Fin 1"
proof -
  have h: "round_half_even ((1 - 1 / 2 ^ 54) / 2 powi (max (- 1) (- 1022) - int 53 + 1)) = 2 ^ 53"
    using round_half_even_tie [of "2 ^ 53 - 1"] by simp
  have "round64 (1 - 1 / 2 ^ 54) = Fin (of_int (2 ^ 53) * 2 powi (max (- 1) (- 1022) - int 53 + 1))"
    unfolding round64_def by (rule round_to_format_eval [OF _ _ refl h]) simp_all
  then show ?thesis by simp
qed

lemma half_integer_float64:
  assumes "\<bar>n\<bar> < 2 ^ 52"
  shows "round64 (of_int n + 1 / 2) = Fin (of_int n + 1 / 2)"
proof (rule round64_exact [where m = "2 * n + 1" and k = "- 1"])
  show "of_int n + 1 / 2 = (of_int (2 * n + 1) :: rat) * 2 powi (- 1)"
    by (simp add: power_int_minus field_simps)
  show "\<bar>2 * n + 1\<bar> < 2 ^ 53" using assms by simp
  have "\<bar>(of_int n :: rat) + 1 / 2\<bar> \<le> \<bar>of_int n\<bar> + 1 / 2" by (rule order_trans [OF abs_triangle_ineq]) simp
  also have "(\<bar>of_int n\<bar> :: rat) = of_int \<bar>n\<bar>" by simp
  also have "(of_int \<bar>n\<bar> :: rat) < of_int (2 ^ 52)" using assms by (simp only: of_int_less_iff)
  finally show "\<bar>(of_int n :: rat) + 1 / 2\<bar> < 2 ^ 1024" by simp
qed simp

lemma int_to_float64_exact:
  assumes "\<bar>n\<bar> < 2 ^ 53"
  shows "int_to_float64 n = Fin (of_int n)"
  unfolding int_to_float64_def
proof (rule round64_exact [where m = n and k = 0])
  have "(of_int \<bar>n\<bar> :: rat) < of_int (2 ^ 53)" using assms by (simp only: of_int_less_iff)
  then show "\<bar>(of_int n :: rat)\<bar> < 2 ^ 1024" by simp
qed (use assms in simp_all)

text \<open>Truncating a half-integer that fits: \<^verbatim>\<open>int(n + 0.5)\<close> is \<open>n\<close> or, below zero, \<open>n + 1\<close>.\<close>

lemma float_to_int_half:
  assumes "\<bar>n\<bar> < 2 ^ 52"
  shows "float_to_int P (Fin (of_int n + 1 / 2)) = (if 0 \<le> n then n else n + 1)"
proof -
  have f: "\<lfloor>(of_int n + 1 / 2 :: rat)\<rfloor> = n" by (rule floor_unique) simp_all
  have c: "\<lceil>(of_int n + 1 / 2 :: rat)\<rceil> = n + 1" by (rule ceiling_unique) simp_all
  have s: "(0 \<le> (of_int n + 1 / 2 :: rat)) = (0 \<le> n)"
  proof
    assume "0 \<le> (of_int n + 1 / 2 :: rat)"
    then have "(- 1 :: rat) < of_int n" by simp
    then have "(of_int (- 1) :: rat) < of_int n" by simp
    then have "- 1 < n" by (simp only: of_int_less_iff)
    then show "0 \<le> n" by simp
  next
    assume "0 \<le> n"
    then have "(0 :: rat) \<le> of_int n" by simp
    then show "0 \<le> (of_int n + 1 / 2 :: rat)" by simp
  qed
  show ?thesis using assms by (auto simp add: float_to_int_def Let_def f c s)
qed

lemma round_half_even_cases:
  "round_half_even z = \<lfloor>z\<rfloor> \<or> (round_half_even z = \<lfloor>z\<rfloor> + 1 \<and> of_int \<lfloor>z\<rfloor> + 1 / 2 \<le> z)"
  by (auto simp add: round_half_even_def Let_def)

lemma round_half_even_le: "z \<le> of_int M \<Longrightarrow> round_half_even z \<le> M"
proof (cases "z = of_int M")
  case True
  then show ?thesis by simp
next
  case False
  assume "z \<le> of_int M"
  then have "z < of_int M" using False by simp
  then have "\<lfloor>z\<rfloor> < M" by (simp add: floor_less_iff)
  then show ?thesis using round_half_even_cases [of z] by auto
qed

lemma round_half_even_ge: "of_int M \<le> z \<Longrightarrow> M \<le> round_half_even z"
proof -
  assume "of_int M \<le> z"
  then have "M \<le> \<lfloor>z\<rfloor>" by (simp add: le_floor_iff)
  then show ?thesis using round_half_even_cases [of z] by auto
qed

lemma round_half_even_up:
  assumes "round_half_even z = M" and "z < of_int M"
  shows "of_int M - 1 / 2 \<le> z"
proof -
  have f: "\<lfloor>z\<rfloor> < M" using assms(2) by (simp add: floor_less_iff)
  then have "round_half_even z = \<lfloor>z\<rfloor> + 1 \<and> of_int \<lfloor>z\<rfloor> + 1 / 2 \<le> z"
    using round_half_even_cases [of z] assms(1) by auto
  then have "M = \<lfloor>z\<rfloor> + 1" and "of_int \<lfloor>z\<rfloor> + 1 / 2 \<le> z" using assms(1) by simp_all
  then show ?thesis by simp
qed

text \<open>Rounding to a multiple of \<open>q\<close> does not pass a multiple of \<open>q\<close>.\<close>

lemma round_multiple_le:
  assumes "0 < q" and "y \<le> of_int M * q"
  shows "of_int (round_half_even (y / q)) * q \<le> of_int M * q"
proof -
  have "y / q \<le> of_int M" using assms by (simp add: pos_divide_le_eq)
  then have "round_half_even (y / q) \<le> M" by (rule round_half_even_le)
  then have "(of_int (round_half_even (y / q)) :: rat) \<le> of_int M" by (simp only: of_int_le_iff)
  then show ?thesis using assms(1) by (simp add: mult_right_mono)
qed

lemma round_multiple_ge:
  assumes "0 < q" and "of_int M * q \<le> y"
  shows "of_int M * q \<le> of_int (round_half_even (y / q)) * q"
proof -
  have "of_int M \<le> y / q" using assms by (simp add: pos_le_divide_eq)
  then have "M \<le> round_half_even (y / q)" by (rule round_half_even_ge)
  then have "(of_int M :: rat) \<le> of_int (round_half_even (y / q))" by (simp only: of_int_le_iff)
  then show ?thesis using assms(1) by (simp add: mult_right_mono)
qed

lemma round_multiple_up:
  assumes "0 < q" and "of_int (round_half_even (y / q)) * q = of_int M * q" and "y < of_int M * q"
  shows "of_int M * q - q / 2 \<le> y"
proof -
  have "(of_int (round_half_even (y / q)) :: rat) = of_int M" using assms(1,2) by simp
  then have r: "round_half_even (y / q) = M" by (simp only: of_int_eq_iff)
  have "y / q < of_int M" using assms(1,3) by (simp add: pos_divide_less_eq)
  then have "of_int M - 1 / 2 \<le> y / q" by (rule round_half_even_up [OF r])
  then have "(of_int M - 1 / 2) * q \<le> y" using assms(1) by (simp add: pos_le_divide_eq)
  then show ?thesis by (simp add: algebra_simps)
qed

text \<open>An integer is a multiple of a negative power of two.\<close>

lemma int_multiple:
  assumes "k \<le> 0"
  shows "(of_int N :: rat) = of_int (N * 2 ^ nat (- k)) * 2 powi k"
proof -
  have "k = - int (nat (- k))" using assms by simp
  then have "(2::rat) powi k = inverse (2 ^ nat (- k))"
    by (metis power_int_minus power_int_of_nat)
  then show ?thesis by simp
qed

lemma powi2_pos: "0 < (2::rat) powi k"
  by (simp add: zero_less_power_int)

lemma round_to_format_Fin:
  assumes "x \<noteq> 0" and "round_to_format p emin emax x = Fin r"
  shows "r = of_int (round_half_even (x / 2 powi (max (ilog2 \<bar>x\<bar>) emin - int p + 1)))
               * 2 powi (max (ilog2 \<bar>x\<bar>) emin - int p + 1)"
  using assms by (simp add: round_to_format_def Let_def split: if_splits)

lemma ilog2_less:
  assumes "0 < x" and "x < 2 powi e"
  shows "ilog2 x < e"
proof (rule ccontr)
  assume "\<not> ilog2 x < e"
  then have "(2::rat) powi e \<le> 2 powi ilog2 x" by (intro powi2_mono) simp
  with ilog2_bounds(1) [OF assms(1)] assms(2) show False by simp
qed

lemma ilog2_ge:
  assumes "2 powi e \<le> x"
  shows "e \<le> ilog2 x"
proof (rule ccontr)
  have x: "0 < x" using assms by (rule less_le_trans [OF powi2_pos])
  assume "\<not> e \<le> ilog2 x"
  then have "(2::rat) powi (ilog2 x + 1) \<le> 2 powi e" by (intro powi2_mono) simp
  with ilog2_bounds(2) [OF x] assms show False by simp
qed

text \<open>A number of the format below one half is at most the largest one below one half.\<close>

lemma below_half_in_format:
  fixes x :: rat
  assumes emin: "emin \<le> - 2"
    and rep: "round_to_format p emin emax x = Fin x"
    and lo: "1 / 4 \<le> x" and hi: "x < 1 / 2"
  shows "x \<le> 1 / 2 - 2 powi (- int p - 1)"
proof -
  have x0: "x \<noteq> 0" and xa: "\<bar>x\<bar> = x" using lo by simp_all
  have e: "ilog2 x = - 2"
    by (rule ilog2_eqI) (use lo hi in \<open>simp_all add: power_int_minus\<close>)
  have k: "max (ilog2 \<bar>x\<bar>) emin - int p + 1 = - int p - 1" using emin by (simp add: xa e)
  define n where "n = round_half_even (x / 2 powi (- int p - 1))"
  have xn: "x = of_int n * 2 powi (- int p - 1)"
    using round_to_format_Fin [OF x0 rep] unfolding k n_def .
  have half: "(1 / 2 :: rat) = of_int (2 ^ p) * 2 powi (- int p - 1)"
  proof -
    have "(2::rat) powi (int p + (- int p - 1)) = 2 powi (int p) * 2 powi (- int p - 1)"
      by (rule power_int_add) simp
    then show ?thesis by (simp add: power_int_minus)
  qed
  have "of_int n * 2 powi (- int p - 1) < (of_int (2 ^ p) :: rat) * 2 powi (- int p - 1)"
    using hi xn half by simp
  then have "(of_int n :: rat) < of_int (2 ^ p)" using powi2_pos [of "- int p - 1"] by simp
  then have "n < 2 ^ p" by (simp only: of_int_less_iff)
  then have "n \<le> 2 ^ p - 1" by simp
  then have "(of_int n :: rat) \<le> of_int (2 ^ p - 1)" by (simp only: of_int_le_iff)
  then have "of_int n * 2 powi (- int p - 1) \<le> (of_int (2 ^ p - 1) :: rat) * 2 powi (- int p - 1)"
    using powi2_pos [of "- int p - 1"] by (simp add: mult_right_mono)
  also have "\<dots> = of_int (2 ^ p) * 2 powi (- int p - 1) - 2 powi (- int p - 1)"
    by (simp add: algebra_simps)
  finally show ?thesis using xn half by simp
qed

text \<open>
  Adding one half to a number of the format and truncating the sum gives the integer
  below the exact sum, for every sum between 0 and 101 but the one that the largest number
  below one half gives.
\<close>

lemma add_half_truncates:
  fixes x r :: rat
  assumes p: "8 \<le> p" and emin: "emin \<le> - 2"
    and rep: "round_to_format p emin emax x = Fin x"
    and corner: "x \<noteq> 1 / 2 - 2 powi (- int p - 1)"
    and sum: "round_to_format p emin emax (x + 1 / 2) = Fin r"
    and pos: "0 < x + 1 / 2" and small: "x + 1 / 2 < 101"
  shows "0 \<le> r \<and> \<lfloor>r\<rfloor> = \<lfloor>x + 1 / 2\<rfloor>"
proof -
  define y where "y = x + 1 / 2"
  define E where "E = max (ilog2 \<bar>y\<bar>) emin"
  define k where "k = E - int p + 1"
  define q where "q = (2::rat) powi k"
  define N where "N = \<lfloor>y\<rfloor>"
  have y0: "y \<noteq> 0" "\<bar>y\<bar> = y" "0 < y" using pos by (simp_all add: y_def)
  have q0: "0 < q" by (simp add: q_def powi2_pos)
  have r: "r = of_int (round_half_even (y / q)) * q"
    using round_to_format_Fin [OF y0(1), of p emin emax r] sum
    by (simp only: y_def [symmetric] E_def [symmetric] k_def [symmetric] q_def [symmetric])
  have "y < 2 powi 7" using small by (simp add: y_def)
  then have "ilog2 y < 7" by (rule ilog2_less [OF y0(3)])
  then have E6: "E \<le> 6" using emin by (simp add: E_def y0)
  then have k1: "k \<le> - 1" using p by (simp add: k_def)
  have qh: "q \<le> 1 / 2" using powi2_mono [OF k1] by (simp add: q_def power_int_minus)
  have N0: "0 \<le> N" using y0(3) by (simp add: N_def)
  have Ny: "of_int N \<le> y" "y < of_int N + 1" using floor_correct [of y] by (simp_all add: N_def)
  have k0: "k \<le> 0" using k1 by simp
  define A where "A = N * 2 ^ nat (- k)"
  define B where "B = (N + 1) * 2 ^ nat (- k)"
  have A: "(of_int N :: rat) = of_int A * q"
    unfolding A_def q_def by (rule int_multiple [OF k0])
  have B: "(of_int (N + 1) :: rat) = of_int B * q"
    unfolding B_def q_def by (rule int_multiple [OF k0])
  have lo: "of_int N \<le> r"
    using round_multiple_ge [OF q0, of A y] Ny(1) by (simp only: A r)
  have hi: "r \<le> of_int (N + 1)"
    using round_multiple_le [OF q0, of y B] Ny(2) by (simp add: B [symmetric] r)
  have ne: "r \<noteq> of_int (N + 1)"
  proof
    assume eq: "r = of_int (N + 1)"
    have "of_int (round_half_even (y / q)) * q = of_int B * q" using eq r B by simp
    moreover have "y < of_int B * q" using Ny(2) B by simp
    ultimately have "of_int B * q - q / 2 \<le> y" by (rule round_multiple_up [OF q0])
    then have up: "of_int (N + 1) - q / 2 \<le> y" by (simp only: B)
    then have y34: "of_int N + 3 / 4 \<le> y" using qh by simp
    show False
    proof (cases "N = 0")
      case True
      have e: "ilog2 y = - 1"
        by (rule ilog2_eqI) (use y34 Ny(2) True in \<open>simp_all add: power_int_minus\<close>)
      have "k = - int p" using emin by (simp add: k_def E_def y0 e)
      then have "q / 2 = 2 powi (- int p - 1)" by (simp add: q_def power_int_diff)
      with up True have "1 / 2 - 2 powi (- int p - 1) \<le> x" by (simp add: y_def)
      moreover have "x \<le> 1 / 2 - 2 powi (- int p - 1)"
      proof (rule below_half_in_format [OF emin rep])
        show "1 / 4 \<le> x" using y34 True by (simp add: y_def)
        show "x < 1 / 2" using Ny(2) True by (simp add: y_def)
      qed
      ultimately show False using corner by simp
    next
      case False
      then have N1: "1 \<le> N" using N0 by simp
      then have "(of_int 1 :: rat) \<le> of_int N" by (simp only: of_int_le_iff)
      then have y1: "1 \<le> y" using Ny(1) by simp
      define e where "e = ilog2 y"
      have e0: "0 \<le> e" using ilog2_ge [of 0 y] y1 by (simp add: e_def)
      have Ee: "E = e" using emin e0 by (simp add: E_def y0 e_def)
      have b: "2 powi e \<le> y" "y < 2 powi (e + 1)"
        using ilog2_bounds [OF y0(3)] by (simp_all add: e_def)
      have pe: "(2::rat) powi e = of_int (2 ^ nat e)" using e0 by (simp add: power_int_def)
      have "(of_int (2 ^ nat e) :: rat) < of_int (N + 1)" using b(1) Ny(2) pe by simp
      then have "2 ^ nat e < N + 1" by (simp only: of_int_less_iff)
      then have "2 ^ nat e \<le> N" by simp
      then have "(of_int (2 ^ nat e) :: rat) \<le> of_int N" by (simp only: of_int_le_iff)
      then have "(2::rat) powi e \<le> of_int N" by (simp only: pe)
      then have xe: "2 powi e \<le> x" using y34 by (simp add: y_def)
      have xlt: "x < 2 powi (e + 1)" using b(2) by (simp add: y_def)
      have "0 < x" using xe by (rule less_le_trans [OF powi2_pos])
      then have x0: "x \<noteq> 0" "\<bar>x\<bar> = x" by simp_all
      have ex: "ilog2 x = e" by (rule ilog2_eqI [OF xe xlt])
      have kx: "max (ilog2 \<bar>x\<bar>) emin - int p + 1 = k" using emin e0 by (simp add: x0 ex k_def Ee)
      define n where "n = round_half_even (x / q)"
      have xn: "x = of_int n * q"
        using round_to_format_Fin [OF x0(1) rep] unfolding kx n_def q_def .
      have "(2::rat) powi ((- 1 - k) + k) = 2 powi (- 1 - k) * 2 powi k"
        by (rule power_int_add) simp
      moreover have "(2::rat) powi (- 1 - k) = of_int (2 ^ nat (- 1 - k))"
        using k1 by (simp add: power_int_def)
      ultimately have H: "(1 / 2 :: rat) = of_int (2 ^ nat (- 1 - k)) * q"
        by (simp add: q_def power_int_minus)
      have "y = of_int (n + 2 ^ nat (- 1 - k)) * q"
        unfolding y_def by (subst xn, subst H) (simp add: algebra_simps)
      then have "y / q = of_int (n + 2 ^ nat (- 1 - k))" using q0 by simp
      then have "r = of_int (n + 2 ^ nat (- 1 - k)) * q"
        unfolding r by (simp only: round_half_even_of_int)
      then have "r = y" using \<open>y = of_int (n + 2 ^ nat (- 1 - k)) * q\<close> by simp
      with eq Ny(2) show False by simp
    qed
  qed
  have "r < of_int (N + 1)" using hi ne by simp
  then have "\<lfloor>r\<rfloor> = N" using lo by (intro floor_unique) simp_all
  moreover have "(of_int 0 :: rat) \<le> of_int N" using N0 by (simp only: of_int_le_iff)
  then have "0 \<le> r" using lo by simp
  ultimately show ?thesis by (simp add: N_def y_def)
qed

text \<open>Rounding keeps a number on its side of a power of two.\<close>

lemma power_multiple:
  assumes "1 \<le> p"
  shows "(2::rat) powi e = of_int (2 ^ (p - 1)) * 2 powi (e - int p + 1)"
proof -
  have "(2::rat) powi ((int p - 1) + (e - int p + 1)) = 2 powi (int p - 1) * 2 powi (e - int p + 1)"
    by (rule power_int_add) simp
  moreover have "int p - 1 = int (p - 1)" using assms by simp
  then have "(2::rat) powi (int p - 1) = 2 ^ (p - 1)" by (simp only: power_int_of_nat)
  ultimately show ?thesis by simp
qed

lemma round_to_format_ge_power:
  assumes "1 \<le> p" and "emin \<le> e" and "2 powi e \<le> y"
  shows "round_to_format p emin emax y = PInf
    \<or> (\<exists>r. round_to_format p emin emax y = Fin r \<and> 2 powi e \<le> r)"
proof -
  have y: "0 < y" using assms(3) by (rule less_le_trans [OF powi2_pos])
  define e' where "e' = ilog2 y"
  have ee: "e \<le> e'" unfolding e'_def using assms(3) by (rule ilog2_ge)
  define q where "q = (2::rat) powi (e' - int p + 1)"
  define r where "r = of_int (round_half_even (y / q)) * q"
  have q0: "0 < q" by (simp add: q_def powi2_pos)
  have m: "max (ilog2 \<bar>y\<bar>) emin = e'" using y ee assms(2) by (simp add: e'_def)
  have a: "(2::rat) powi e' = of_int (2 ^ (p - 1)) * q"
    unfolding q_def by (rule power_multiple [OF assms(1)])
  have "2 powi e' \<le> y" unfolding e'_def by (rule ilog2_bounds(1) [OF y])
  then have "of_int (2 ^ (p - 1)) * q \<le> y" by (simp only: a)
  then have "of_int (2 ^ (p - 1)) * q \<le> r" unfolding r_def by (rule round_multiple_ge [OF q0])
  then have "2 powi e' \<le> r" by (simp only: a)
  then have r: "2 powi e \<le> r" using powi2_mono [OF ee] by simp
  have "round_to_format p emin emax y = (if 2 powi (emax + 1) \<le> \<bar>r\<bar> then PInf else Fin r)"
    unfolding round_to_format_def Let_def m q_def [symmetric] r_def [symmetric] using y by simp
  then show ?thesis using r by simp
qed

lemma round_to_format_le_power:
  assumes "1 \<le> p" and "emin \<le> e" and "y \<le> - (2 powi e)"
  shows "round_to_format p emin emax y = NInf
    \<or> (\<exists>r. round_to_format p emin emax y = Fin r \<and> r \<le> - (2 powi e))"
proof -
  have y: "y < 0" using assms(3) powi2_pos [of e] by linarith
  define e' where "e' = ilog2 (- y)"
  have ee: "e \<le> e'" unfolding e'_def using assms(3) by (intro ilog2_ge) simp
  define q where "q = (2::rat) powi (e' - int p + 1)"
  define r where "r = of_int (round_half_even (y / q)) * q"
  have q0: "0 < q" by (simp add: q_def powi2_pos)
  have m: "max (ilog2 \<bar>y\<bar>) emin = e'" using y ee assms(2) by (simp add: e'_def)
  have a: "- ((2::rat) powi e') = of_int (- (2 ^ (p - 1))) * q"
    unfolding q_def using power_multiple [OF assms(1), of e'] by simp
  have "2 powi e' \<le> - y" unfolding e'_def using y by (intro ilog2_bounds(1)) simp
  then have "y \<le> - (2 powi e')" by simp
  then have "y \<le> of_int (- (2 ^ (p - 1))) * q" by (simp only: a)
  then have "r \<le> of_int (- (2 ^ (p - 1))) * q" unfolding r_def by (rule round_multiple_le [OF q0])
  then have "r \<le> - (2 powi e')" by (simp only: a)
  then have r: "r \<le> - (2 powi e)" using powi2_mono [OF ee] by simp
  have "round_to_format p emin emax y = (if 2 powi (emax + 1) \<le> \<bar>r\<bar> then NInf else Fin r)"
    unfolding round_to_format_def Let_def m q_def [symmetric] r_def [symmetric] using y by simp
  then show ?thesis using r by simp
qed

text \<open>
  \<^verbatim>\<open>int(number+0.5)\<close> followed by the clamp to 0 .. 100, for a number of the format whose
  sum with one half is finite.
\<close>

lemma add_half_clamps:
  fixes x r :: rat
  assumes p: "8 \<le> p" and emin: "emin \<le> - 2"
    and rep: "round_to_format p emin emax x = Fin x"
    and corner: "x \<noteq> 1 / 2 - 2 powi (- int p - 1)"
    and sum: "round_to_format p emin emax (x + 1 / 2) = Fin r"
  shows "clampInt (if 0 \<le> r then \<lfloor>r\<rfloor> else \<lceil>r\<rceil>) 0 100 = max 0 (min 100 \<lfloor>x + 1 / 2\<rfloor>)"
proof -
  define y where "y = x + 1 / 2"
  consider "y \<le> 0" | "0 < y" "y < 101" | "101 \<le> y" by linarith
  then show ?thesis
  proof cases
    case 1
    have r0: "r \<le> 0"
    proof (cases "y = 0")
      case True
      then show ?thesis using sum by (simp add: y_def [symmetric] round_to_format_def)
    next
      case False
      define q where "q = (2::rat) powi (max (ilog2 \<bar>y\<bar>) emin - int p + 1)"
      have q0: "0 < q" by (simp add: q_def powi2_pos)
      have "r = of_int (round_half_even (y / q)) * q"
        using round_to_format_Fin [OF False, of p emin emax r] sum
        by (simp only: y_def [symmetric] q_def [symmetric])
      moreover have "of_int (round_half_even (y / q)) * q \<le> of_int 0 * q"
        by (rule round_multiple_le [OF q0]) (use 1 in simp)
      ultimately show ?thesis by simp
    qed
    then have "(if 0 \<le> r then \<lfloor>r\<rfloor> else \<lceil>r\<rceil>) \<le> 0"
      by (auto simp add: ceiling_le_iff floor_le_iff)
    moreover have "\<lfloor>y\<rfloor> \<le> 0" using 1 by (simp add: floor_le_iff)
    ultimately show ?thesis by (simp add: clampInt_def y_def)
  next
    case 2
    have "0 \<le> r \<and> \<lfloor>r\<rfloor> = \<lfloor>x + 1 / 2\<rfloor>"
      by (rule add_half_truncates [OF p emin rep corner sum]) (use 2 in \<open>simp_all add: y_def\<close>)
    then show ?thesis by (auto simp add: clampInt_def)
  next
    case 3
    have y0: "y \<noteq> 0" "\<bar>y\<bar> = y" "0 < y" using 3 by simp_all
    have r101: "101 \<le> r"
    proof (cases "2 powi 7 \<le> y")
      case True
      have "round_to_format p emin emax y = PInf
          \<or> (\<exists>r. round_to_format p emin emax y = Fin r \<and> 2 powi 7 \<le> r)"
        by (rule round_to_format_ge_power [OF _ _ True]) (use p emin in simp_all)
      then have "2 powi 7 \<le> r" using sum by (simp add: y_def [symmetric])
      then show ?thesis by simp
    next
      case False
      have e: "ilog2 y = 6" by (rule ilog2_eqI) (use 3 False in simp_all)
      define k where "k = 7 - int p"
      define q where "q = (2::rat) powi k"
      have q0: "0 < q" by (simp add: q_def powi2_pos)
      have k0: "k \<le> 0" using p by (simp add: k_def)
      have m: "max (ilog2 \<bar>y\<bar>) emin - int p + 1 = k" using emin by (simp add: y0 e k_def)
      have rr: "r = of_int (round_half_even (y / q)) * q"
        using round_to_format_Fin [OF y0(1), of p emin emax r] sum
        by (simp only: y_def [symmetric] m q_def [symmetric])
      have a: "(of_int 101 :: rat) = of_int (101 * 2 ^ nat (- k)) * q"
        unfolding q_def by (rule int_multiple [OF k0])
      have "of_int (101 * 2 ^ nat (- k)) * q \<le> y" using 3 by (simp only: a [symmetric])
      then have "of_int (101 * 2 ^ nat (- k)) * q \<le> r"
        unfolding rr by (rule round_multiple_ge [OF q0])
      then show ?thesis by (simp only: a [symmetric])
    qed
    then have "101 \<le> \<lfloor>r\<rfloor>" by (simp add: le_floor_iff)
    moreover have "101 \<le> \<lfloor>y\<rfloor>" using 3 by (simp add: le_floor_iff)
    ultimately show ?thesis using r101 by (simp add: clampInt_def y_def)
  qed
qed

section \<open>Normalization rules\<close>

lemma normalize_percent:
  "numeric_kind kind \<Longrightarrow> numeric_key key \<Longrightarrow>
    normalizeValue P kind key v = VInt (clampToInt P v 0 100)"
  by (auto simp add: normalizeValue_def numeric_kind_def numeric_key_def)

lemma normalize_temperature:
  "normalizeValue P ''thermostat'' ''temperature'' v = VFloat64 (clampToFloat P v (Fin 10) (Fin 30))"
  by (simp add: normalizeValue_def)

lemma normalize_boolean:
  "boolean_kind kind \<Longrightarrow> boolean_key key \<Longrightarrow> normalizeValue P kind key v = VBool (toBool v)"
  by (auto simp add: normalizeValue_def boolean_kind_def boolean_key_def)

text \<open>\<^verbatim>\<open>normalizeValue\<close> with the groups of kinds and keys named.\<close>

lemma normalizeValue_groups:
  "normalizeValue P kind key v =
     (if numeric_kind kind then (if numeric_key key then VInt (clampToInt P v 0 100) else v)
      else if kind = ''thermostat'' then
        (if key = ''temperature'' then VFloat64 (clampToFloat P v (Fin 10) (Fin 30)) else v)
      else if boolean_kind kind then
        (if boolean_key key then VBool (toBool v)
         else if key = ''mode'' then
           (case v of VString mode \<Rightarrow> VString (TrimSpace P mode) | _ \<Rightarrow> v)
         else v)
      else v)"
  by (simp only: normalizeValue_def numeric_kind_def numeric_key_def boolean_kind_def
      boolean_key_def)

lemma boolean_kind_not_numeric: "boolean_kind kind \<Longrightarrow> \<not> numeric_kind kind \<and> kind \<noteq> ''thermostat''"
  by (auto simp add: boolean_kind_def numeric_kind_def)

lemma normalize_mode:
  "boolean_kind kind \<Longrightarrow> normalizeValue P kind ''mode'' v = policy_mode P v"
  by (cases v) (simp_all add: normalizeValue_groups boolean_kind_not_numeric boolean_key_def)

lemma normalize_other:
  assumes "\<not> (numeric_kind kind \<and> numeric_key key)"
    and "\<not> (kind = ''thermostat'' \<and> key = ''temperature'')"
    and "\<not> (boolean_kind kind \<and> boolean_key key)"
    and "\<not> (boolean_kind kind \<and> key = ''mode'')"
  shows "normalizeValue P kind key v = v"
  using assms by (auto simp add: normalizeValue_groups)

lemma ParseInt_42: "ParseInt ''42'' = Some 42"
  by (simp add: ParseInt_def ParseUint_def is_digit_def digits_value_def)

subsection \<open>The code against the policy table\<close>

lemma nearest_percent_int: "nearest_percent (of_int n) = VInt (clampInt n 0 100)"
proof -
  have "\<lfloor>(of_int n :: rat) + 1 / 2\<rfloor> = n" by (rule floor_unique) simp_all
  then show ?thesis by (simp add: nearest_percent_def clampInt_def)
qed

lemma fits_int_Fin: "fits_int f \<Longrightarrow> \<exists>r. f = Fin r"
  by (cases f) (simp_all add: fits_int_def)

lemma float_to_int_fits:
  "fits_int (Fin r) \<Longrightarrow> float_to_int P (Fin r) = (if 0 \<le> r then \<lfloor>r\<rfloor> else \<lceil>r\<rceil>)"
  by (simp add: fits_int_def float_to_int_def Let_def)

text \<open>
  \<^verbatim>\<open>int(number+0.5)\<close> and the clamp give the nearest integer in 0 .. 100 for every
  \<^verbatim>\<open>float64\<close> but the largest one below one half, as long as Go defines the conversion.
\<close>

lemma clampToInt_float64:
  assumes "regular64 x"
  shows "VInt (clampToInt P (VFloat64 (Fin x)) 0 100) = nearest_percent x"
proof -
  have a: "round64 x = Fin x \<and> x \<noteq> 1 / 2 - 1 / 2 ^ 54 \<and> fits_int (round64 (x + 1 / 2))"
    using assms unfolding regular64_def .
  note assms = conjunct1 [OF a] conjunct1 [OF conjunct2 [OF a]] conjunct2 [OF conjunct2 [OF a]]
  obtain r where r: "round64 (x + 1 / 2) = Fin r" using fits_int_Fin [OF assms(3)] by blast
  have c: "x \<noteq> 1 / 2 - 2 powi (- int 53 - 1)" using assms(2) by (simp add: power_int_minus)
  have "clampInt (if 0 \<le> r then \<lfloor>r\<rfloor> else \<lceil>r\<rceil>) 0 100 = max 0 (min 100 \<lfloor>x + 1 / 2\<rfloor>)"
    by (rule add_half_clamps [of 53 "- 1022" 1023 x r])
      (use assms(1) c r in \<open>simp_all add: round64_def\<close>)
  moreover have "float_to_int P (Fin r) = (if 0 \<le> r then \<lfloor>r\<rfloor> else \<lceil>r\<rceil>)"
    using assms(3) unfolding r by (rule float_to_int_fits)
  ultimately show ?thesis by (simp add: r nearest_percent_def)
qed

lemma clampToInt_float32:
  assumes "regular32 x"
  shows "VInt (clampToInt P (VFloat32 (Fin x)) 0 100) = nearest_percent x"
proof -
  have a: "round32 x = Fin x \<and> x \<noteq> 1 / 2 - 1 / 2 ^ 25 \<and> fits_int (round32 (x + 1 / 2))"
    using assms unfolding regular32_def .
  note assms = conjunct1 [OF a] conjunct1 [OF conjunct2 [OF a]] conjunct2 [OF conjunct2 [OF a]]
  obtain r where r: "round32 (x + 1 / 2) = Fin r" using fits_int_Fin [OF assms(3)] by blast
  have c: "x \<noteq> 1 / 2 - 2 powi (- int 24 - 1)" using assms(2) by (simp add: power_int_minus)
  have "clampInt (if 0 \<le> r then \<lfloor>r\<rfloor> else \<lceil>r\<rceil>) 0 100 = max 0 (min 100 \<lfloor>x + 1 / 2\<rfloor>)"
    by (rule add_half_clamps [of 24 "- 126" 127 x r])
      (use assms(1) c r in \<open>simp_all add: round32_def\<close>)
  moreover have "float_to_int P (Fin r) = (if 0 \<le> r then \<lfloor>r\<rfloor> else \<lceil>r\<rceil>)"
    using assms(3) unfolding r by (rule float_to_int_fits)
  ultimately show ?thesis by (simp add: r nearest_percent_def)
qed

lemma clampFloat_Fin: "VFloat64 (clampFloat (Fin x) (Fin 10) (Fin 30)) = clamp_temperature x"
  by (simp add: clampFloat_def clamp_temperature_def)

text \<open>\<^verbatim>\<open>float64(n)\<close> is on the same side of the bounds as \<open>n\<close>, however large \<open>n\<close> is.\<close>

lemma clampFloat_int:
  "VFloat64 (clampFloat (int_to_float64 n) (Fin 10) (Fin 30)) = clamp_temperature (of_int n)"
proof -
  consider "\<bar>n\<bar> < 2 ^ 53" | "2 ^ 53 \<le> n" | "n \<le> - (2 ^ 53)" by linarith
  then show ?thesis
  proof cases
    case 1
    then show ?thesis by (simp add: int_to_float64_exact clampFloat_Fin)
  next
    case 2
    then have "(of_int (2 ^ 53) :: rat) \<le> of_int n" by (simp only: of_int_le_iff)
    then have b: "2 powi 53 \<le> (of_int n :: rat)" by simp
    have "round64 (of_int n) = PInf \<or> (\<exists>r. round64 (of_int n) = Fin r \<and> 2 powi 53 \<le> r)"
      unfolding round64_def by (rule round_to_format_ge_power [OF _ _ b]) simp_all
    then show ?thesis
      using b by (auto simp add: int_to_float64_def clampFloat_def clamp_temperature_def)
  next
    case 3
    then have "(of_int n :: rat) \<le> of_int (- (2 ^ 53))" by (simp only: of_int_le_iff)
    then have b: "(of_int n :: rat) \<le> - (2 powi 53)" by simp
    have "round64 (of_int n) = NInf \<or> (\<exists>r. round64 (of_int n) = Fin r \<and> r \<le> - (2 powi 53))"
      unfolding round64_def by (rule round_to_format_le_power [OF _ _ b]) simp_all
    then show ?thesis
      using b by (auto simp add: int_to_float64_def clampFloat_def clamp_temperature_def)
  qed
qed

lemma clamp_float_eq: "clamp_float f = Some w \<Longrightarrow> VFloat64 (clampFloat f (Fin 10) (Fin 30)) = w"
  by (cases f) (simp_all add: clampFloat_Fin, simp_all add: clampFloat_def)

lemma policy_percent_eq:
  assumes "policy_percent v = Some w"
  shows "VInt (clampToInt P v 0 100) = w"
proof (cases v)
  case (VFloat64 f)
  show ?thesis
  proof (cases f)
    case (Fin x)
    have "regular64 x" and "w = nearest_percent x"
      using assms by (simp_all add: VFloat64 Fin split: if_splits)
    then show ?thesis unfolding VFloat64 Fin by (simp only: clampToInt_float64)
  qed (use assms VFloat64 in simp_all)
next
  case (VFloat32 f)
  show ?thesis
  proof (cases f)
    case (Fin x)
    have "regular32 x" and "w = nearest_percent x"
      using assms by (simp_all add: VFloat32 Fin split: if_splits)
    then show ?thesis unfolding VFloat32 Fin by (simp only: clampToInt_float32)
  qed (use assms VFloat32 in simp_all)
qed (use assms in \<open>auto simp add: nearest_percent_int split: option.splits\<close>)

lemma policy_temperature_eq:
  "policy_temperature P v = Some w \<Longrightarrow> VFloat64 (clampToFloat P v (Fin 10) (Fin 30)) = w"
  by (cases v) (auto simp add: clampFloat_int clamp_float_eq split: option.splits)

lemma policy_boolean_eq: "toBool v = policy_boolean v"
  by (cases v) (simp_all add: EqualFold_def to_lower_def)

text \<open>Where the policy table gives a result, \<^verbatim>\<open>normalizeValue\<close> returns it.\<close>

lemma policy_normalize:
  assumes "policy P kind key v = Some w"
  shows "normalizeValue P kind key v = w"
proof -
  consider "numeric_kind kind \<and> numeric_key key"
    | "\<not> (numeric_kind kind \<and> numeric_key key)" "kind = ''thermostat'' \<and> key = ''temperature''"
    | "\<not> (numeric_kind kind \<and> numeric_key key)" "\<not> (kind = ''thermostat'' \<and> key = ''temperature'')"
      "boolean_kind kind \<and> boolean_key key"
    | "\<not> (numeric_kind kind \<and> numeric_key key)" "\<not> (kind = ''thermostat'' \<and> key = ''temperature'')"
      "\<not> (boolean_kind kind \<and> boolean_key key)" "boolean_kind kind \<and> key = ''mode''"
    | "\<not> (numeric_kind kind \<and> numeric_key key)" "\<not> (kind = ''thermostat'' \<and> key = ''temperature'')"
      "\<not> (boolean_kind kind \<and> boolean_key key)" "\<not> (boolean_kind kind \<and> key = ''mode'')"
    by blast
  then show ?thesis
  proof cases
    case 1
    then show ?thesis using assms by (simp add: policy_def normalize_percent policy_percent_eq)
  next
    case 2
    then show ?thesis
      using assms
      by (simp add: policy_def numeric_kind_def normalize_temperature policy_temperature_eq)
  next
    case 3
    then show ?thesis using assms by (auto simp add: policy_def normalize_boolean policy_boolean_eq)
  next
    case 4
    then show ?thesis
      using assms by (auto simp add: policy_def normalize_mode numeric_key_def boolean_key_def)
  next
    case 5
    then show ?thesis using assms by (auto simp add: policy_def normalize_other)
  qed
qed

subsection \<open>C1: the representations of a number\<close>

lemma percent_representations:
  assumes "numeric_kind kind" and "numeric_key key"
  shows "normalizeValue P kind key (VInt n) = nearest_percent (of_int n)"
    and "normalizeValue P kind key (VInt64 n) = nearest_percent (of_int n)"
    and "regular64 x \<Longrightarrow> normalizeValue P kind key (VFloat64 (Fin x)) = nearest_percent x"
    and "regular32 x \<Longrightarrow> normalizeValue P kind key (VFloat32 (Fin x)) = nearest_percent x"
    and "ParseInt s = Some n \<Longrightarrow> normalizeValue P kind key (VNumber s) = nearest_percent (of_int n)"
    and "ParseInt s = None \<Longrightarrow> normalizeValue P kind key (VNumber s) = VInt 0"
    and "normalizeValue P kind key (VString u) = VInt 0"
proof -
  note nv = normalize_percent [OF assms]
  show "normalizeValue P kind key (VInt n) = nearest_percent (of_int n)"
    by (simp add: nv nearest_percent_int)
  show "normalizeValue P kind key (VInt64 n) = nearest_percent (of_int n)"
    by (simp add: nv nearest_percent_int)
  show "regular64 x \<Longrightarrow> normalizeValue P kind key (VFloat64 (Fin x)) = nearest_percent x"
    by (simp only: nv clampToInt_float64)
  show "regular32 x \<Longrightarrow> normalizeValue P kind key (VFloat32 (Fin x)) = nearest_percent x"
    by (simp only: nv clampToInt_float32)
  show "ParseInt s = Some n \<Longrightarrow> normalizeValue P kind key (VNumber s) = nearest_percent (of_int n)"
    by (simp add: nv nearest_percent_int)
  show "ParseInt s = None \<Longrightarrow> normalizeValue P kind key (VNumber s) = VInt 0"
    by (simp add: nv)
  show "normalizeValue P kind key (VString u) = VInt 0"
    by (simp add: nv)
qed

lemma temperature_representations:
  "normalizeValue P ''thermostat'' ''temperature'' (VInt n) = clamp_temperature (of_int n)"
  "normalizeValue P ''thermostat'' ''temperature'' (VInt64 n) = clamp_temperature (of_int n)"
  "normalizeValue P ''thermostat'' ''temperature'' (VFloat64 (Fin x)) = clamp_temperature x"
  "normalizeValue P ''thermostat'' ''temperature'' (VFloat32 (Fin x)) = clamp_temperature x"
  "ParseFloat P t = Some (Fin x) \<Longrightarrow>
    normalizeValue P ''thermostat'' ''temperature'' (VNumber t) = clamp_temperature x"
  "ParseFloat P t = None \<Longrightarrow>
    normalizeValue P ''thermostat'' ''temperature'' (VNumber t) = VFloat64 (Fin 10)"
  "normalizeValue P ''thermostat'' ''temperature'' (VString u) = VFloat64 (Fin 10)"
  by (simp_all add: normalize_temperature clampFloat_int clampFloat_Fin)

text \<open>
  C1, as the spec states it, fails: a number that arrives as a string is not coerced.  The
  type switches of \<^verbatim>\<open>clampToInt\<close> and \<^verbatim>\<open>clampToFloat\<close> have no case for \<^verbatim>\<open>string\<close>, so the
  string \<^verbatim>\<open>"42"\<close> as a blind's position gives the lower bound 0, where the integer 42 gives
  42.  And \<^verbatim>\<open>clampToInt\<close> reads a \<^verbatim>\<open>json.Number\<close> with \<^verbatim>\<open>Int64\<close>, so the number \<^verbatim>\<open>42.6\<close>
  decoded as a \<^verbatim>\<open>json.Number\<close> gives 0 as well, where the nearest integer is 43.
\<close>

theorem string_42_counterexample:
  "normalizeValue amd64 ''blind'' ''position'' (VString ''42'') = VInt 0
    \<and> normalizeValue amd64 ''blind'' ''position'' (VInt 42) = VInt 42
    \<and> normalizeValue amd64 ''blind'' ''position'' (VNumber ''42.6'') = VInt 0
    \<and> nearest_percent (213 / 5) = VInt 43"
proof -
  have "ParseInt ''42.6'' = None" by (simp add: ParseInt_def ParseUint_def is_digit_def)
  moreover have "\<lfloor>(213 / 5 :: rat) + 1 / 2\<rfloor> = 43" by (rule floor_unique) simp_all
  ultimately show ?thesis
    unfolding nearest_percent_def by (simp add: normalizeValue_def clampInt_def)
qed

text \<open>
  C1, amended: for a kind and key under a numeric rule, normalization applies the rule of
  the policy table to the number that the value carries, in whichever representation the
  number arrives.  Under the position and level rule an \<^verbatim>\<open>int\<close> or \<^verbatim>\<open>int64\<close> \<open>n\<close> of any
  size, a \<^verbatim>\<open>json.Number\<close> whose text is the integer literal of \<open>n\<close>, and a \<^verbatim>\<open>float64\<close> or
  \<^verbatim>\<open>float32\<close> \<open>x\<close>, with or without a fraction, are rounded to the nearest integer and
  clamped to 0 .. 100; for a float this is stated for every number of the format other than
  the largest one below one half, as long as Go defines the conversion of its sum with
  \<^verbatim>\<open>0.5\<close> to \<^verbatim>\<open>int\<close>.  Under the temperature rule an \<^verbatim>\<open>int\<close> or \<^verbatim>\<open>int64\<close> of any size, a
  \<^verbatim>\<open>float64\<close> or \<^verbatim>\<open>float32\<close> with or without a fraction and a \<^verbatim>\<open>json.Number\<close> whose text
  \<^verbatim>\<open>strconv.ParseFloat\<close> reads as \<open>x\<close> are clamped to 10 .. 30.  A plain string is not a
  number to either rule and gives its lower bound, 0 or 10, and so does a \<^verbatim>\<open>json.Number\<close>
  whose text is no integer literal, under the position and level rule, or is rejected by
  \<^verbatim>\<open>strconv.ParseFloat\<close>, under the temperature rule.
\<close>

theorem numeric_representations_agree:
  "(numeric_kind kind \<and> numeric_key key \<longrightarrow>
        normalizeValue P kind key (VInt n) = nearest_percent (of_int n)
      \<and> normalizeValue P kind key (VInt64 n) = nearest_percent (of_int n)
      \<and> (round64 x = Fin x \<and> x \<noteq> 1 / 2 - 1 / 2 ^ 54 \<and> fits_int (round64 (x + 1 / 2))
            \<longrightarrow> normalizeValue P kind key (VFloat64 (Fin x)) = nearest_percent x)
      \<and> (round32 x = Fin x \<and> x \<noteq> 1 / 2 - 1 / 2 ^ 25 \<and> fits_int (round32 (x + 1 / 2))
            \<longrightarrow> normalizeValue P kind key (VFloat32 (Fin x)) = nearest_percent x)
      \<and> (ParseInt s = Some n
            \<longrightarrow> normalizeValue P kind key (VNumber s) = nearest_percent (of_int n))
      \<and> (ParseInt s = None \<longrightarrow> normalizeValue P kind key (VNumber s) = VInt 0)
      \<and> normalizeValue P kind key (VString u) = VInt 0)
    \<and> normalizeValue P ''thermostat'' ''temperature'' (VInt n) = clamp_temperature (of_int n)
    \<and> normalizeValue P ''thermostat'' ''temperature'' (VInt64 n) = clamp_temperature (of_int n)
    \<and> normalizeValue P ''thermostat'' ''temperature'' (VFloat64 (Fin x)) = clamp_temperature x
    \<and> normalizeValue P ''thermostat'' ''temperature'' (VFloat32 (Fin x)) = clamp_temperature x
    \<and> (ParseFloat P t = Some (Fin x)
          \<longrightarrow> normalizeValue P ''thermostat'' ''temperature'' (VNumber t) = clamp_temperature x)
    \<and> (ParseFloat P t = None
          \<longrightarrow> normalizeValue P ''thermostat'' ''temperature'' (VNumber t) = VFloat64 (Fin 10))
    \<and> normalizeValue P ''thermostat'' ''temperature'' (VString u) = VFloat64 (Fin 10)"
  unfolding regular64_def [symmetric] regular32_def [symmetric]
  by (simp add: percent_representations temperature_representations)

text \<open>
  The amended C1 on the sample platform: the number 42 and the number 42.5 as a blind's
  position and as a thermostat's temperature.
\<close>

theorem numeric_representations_agree_witness:
  "normalizeValue amd64 ''blind'' ''position'' (VInt 42) = VInt 42
    \<and> normalizeValue amd64 ''blind'' ''position'' (VInt64 42) = VInt 42
    \<and> normalizeValue amd64 ''blind'' ''position'' (VFloat64 (Fin (85 / 2))) = VInt 43
    \<and> normalizeValue amd64 ''blind'' ''position'' (VFloat32 (Fin (85 / 2))) = VInt 43
    \<and> normalizeValue amd64 ''blind'' ''position'' (VNumber ''42'') = VInt 42
    \<and> normalizeValue amd64 ''blind'' ''position'' (VString ''42'') = VInt 0
    \<and> normalizeValue amd64 ''thermostat'' ''temperature'' (VInt 42) = VFloat64 (Fin 30)
    \<and> normalizeValue amd64 ''thermostat'' ''temperature'' (VFloat64 (Fin (85 / 2))) = VFloat64 (Fin 30)
    \<and> normalizeValue amd64 ''thermostat'' ''temperature'' (VFloat64 (Fin (43 / 2)))
        = VFloat64 (Fin (43 / 2))
    \<and> normalizeValue amd64 ''thermostat'' ''temperature'' (VNumber ''42'') = VFloat64 (Fin 30)
    \<and> normalizeValue amd64 ''thermostat'' ''temperature'' (VString ''42'') = VFloat64 (Fin 10)
    \<and> normalizeValue amd64 ''blind'' ''position'' (VNumber ''42.6'') = VInt 0
    \<and> normalizeValue amd64 ''thermostat'' ''temperature'' (VNumber ''warm'') = VFloat64 (Fin 10)"
proof -
  have r64: "round64 (85 / 2) = Fin (85 / 2)"
    by (rule round64_exact [where m = 85 and k = "- 1"]) (simp_all add: power_int_minus)
  have r32: "round32 (85 / 2) = Fin (85 / 2)"
    by (rule round32_exact [where m = 85 and k = "- 1"]) (simp_all add: power_int_minus)
  have s64: "round64 (85 / 2 + 1 / 2) = Fin 43"
    using round64_exact [where x = 43 and m = 43 and k = 0] by simp
  have s32: "round32 (85 / 2 + 1 / 2) = Fin 43"
    using round32_exact [where x = 43 and m = 43 and k = 0] by simp
  have f: "fits_int (Fin 43)" by (simp add: fits_int_def)
  have fl: "\<lfloor>(85 / 2 :: rat) + 1 / 2\<rfloor> = 43" by (rule floor_unique) simp_all
  have n1: "nearest_percent (85 / 2) = VInt 43"
    unfolding nearest_percent_def fl by simp
  have n2: "nearest_percent (of_int 42) = VInt 42"
    by (simp only: nearest_percent_int) (simp add: clampInt_def)
  note n = n1 n2
  have c: "(85 / 2 :: rat) \<noteq> 1 / 2 - 1 / 2 ^ 54" "(85 / 2 :: rat) \<noteq> 1 / 2 - 1 / 2 ^ 25"
    by simp_all
  have t: "clamp_temperature (of_int 42) = VFloat64 (Fin 30)"
    "clamp_temperature (85 / 2) = VFloat64 (Fin 30)"
    "clamp_temperature (43 / 2) = VFloat64 (Fin (43 / 2))"
    "clamp_temperature 42 = VFloat64 (Fin 30)"
    by (simp_all add: clamp_temperature_def)
  have k: "numeric_kind ''blind''" "numeric_key ''position''"
    by (simp_all add: numeric_kind_def numeric_key_def)
  have p: "ParseFloat amd64 ''42'' = Some (Fin 42)" "ParseFloat amd64 ''warm'' = None"
    by (simp_all add: amd64_def)
  have i: "ParseInt ''42.6'' = None" by (simp add: ParseInt_def ParseUint_def is_digit_def)
  show ?thesis
    using numeric_representations_agree [of "''blind''" "''position''" amd64 42 "85 / 2" "''42''" "''42''" "''42''"]
      numeric_representations_agree [of "''blind''" "''position''" amd64 42 "43 / 2" "''42''" "''42''" "''42''"]
      numeric_representations_agree [of "''blind''" "''position''" amd64 42 42 "''42''" "''42''" "''42''"]
      numeric_representations_agree [of "''blind''" "''position''" amd64 42 42 "''42.6''" "''42''" "''warm''"]
    unfolding s64 s32
    using r64 r32 f c k p i ParseInt_42
    by (simp only: n t simp_thms)
qed

section \<open>The heap and the store\<close>

lemma entries_new_map:
  "entries (h @ [m]) a = (if a < length h then entries h a else if a = length h then m else [])"
  by (auto simp add: entries_def nth_append)

lemma update_fresh_key: "k \<notin> fst ` set al \<Longrightarrow> AList.update k v al = al @ [(k, v)]"
  by (induction al) auto

lemma fold_update_distinct:
  "distinct (map fst (acc @ es)) \<Longrightarrow>
    fold (\<lambda>(key, value) copyMap. AList.update key value copyMap) es acc = acc @ es"
proof (induction es arbitrary: acc)
  case Nil
  then show ?case by simp
next
  case (Cons e es)
  obtain k v where e: "e = (k, v)" by (cases e)
  have k: "k \<notin> fst ` set acc" using Cons.prems by (auto simp add: e)
  have "distinct (map fst ((acc @ [(k, v)]) @ es))" using Cons.prems by (simp add: e)
  then have "fold (\<lambda>(key, value) copyMap. AList.update key value copyMap) es (acc @ [(k, v)])
      = (acc @ [(k, v)]) @ es" by (rule Cons.IH)
  then show ?case by (simp add: e update_fresh_key [OF k])
qed

lemma heap_ok_entries: "heap_ok h \<Longrightarrow> distinct (map fst (entries h a))"
  by (simp add: heap_ok_def entries_def list_all_length)

lemma copyState_Some: "heap_ok h \<Longrightarrow> copyState h (Some a) = (h @ [entries h a], length h)"
  using fold_update_distinct [of "[]" "entries h a"]
  by (simp add: copyState_def new_map_def heap_ok_entries)

lemma copyState_None: "copyState h None = (h @ [[]], length h)"
  by (simp add: copyState_def new_map_def)

lemma copy_device_eq:
  "heap_ok h \<Longrightarrow> copy_device h device = (h @ [state_of h device], device\<lparr>State := Some (length h)\<rparr>)"
  by (cases "State device") (simp_all add: copy_device_def copyState_Some copyState_None state_of_def)

lemma heap_ok_append: "heap_ok (h @ [m]) = (heap_ok h \<and> distinct (map fst m))"
  by (simp add: heap_ok_def)

lemma heap_ok_state_of: "heap_ok h \<Longrightarrow> distinct (map fst (state_of h device))"
  by (cases "State device") (simp_all add: state_of_def heap_ok_entries)

lemma heap_ok_update:
  "heap_ok h \<Longrightarrow> distinct (map fst m) \<Longrightarrow> heap_ok (h[a := m])"
  using set_update_subset_insert [of h a m] by (auto simp add: heap_ok_def list_all_iff)

lemma entries_list_update:
  "entries (h[a := m]) b = (if b = a \<and> a < length h then m else entries h b)"
  by (auto simp add: entries_def)

text \<open>The loop of \<^verbatim>\<open>Update\<close> amounts to one assignment of the device's map.\<close>

lemma assign_entries_eq:
  "State device = Some a \<Longrightarrow> a < length h \<Longrightarrow>
    assign_entries P device es h = Some (h[a := assigned P (Kind device) es (entries h a)])"
  unfolding assigned_def
proof (induction es arbitrary: h)
  case Nil
  then show ?case by (simp add: entries_def)
next
  case (Cons e es)
  obtain k v where e: "e = (k, v)" by (cases e)
  let ?h = "map_assign h a k (normalizeValue P (Kind device) k v)"
  have l: "a < length ?h" using Cons.prems by (simp add: map_assign_def)
  show ?case
    using Cons.prems Cons.IH [OF Cons.prems(1) l]
    by (simp add: e map_assign_def entries_list_update)
qed

lemma map_of_fold_update:
  "distinct (map fst es) \<Longrightarrow>
    map_of (fold (\<lambda>(key, value) m. AList.update key (f key value) m) es m0) k =
      (case map_of es k of Some v \<Rightarrow> Some (f k v) | None \<Rightarrow> map_of m0 k)"
proof (induction es arbitrary: m0)
  case Nil
  then show ?case by simp
next
  case (Cons e es)
  obtain k0 v0 where e: "e = (k0, v0)" by (cases e)
  have n: "map_of es k0 = None" using Cons.prems by (simp add: e map_of_eq_None_iff)
  show ?case using Cons.prems Cons.IH [of "AList.update k0 (f k0 v0) m0"]
    by (auto simp add: e update_conv' n split: option.splits)
qed

lemma distinct_fold_update:
  "distinct (map fst m0) \<Longrightarrow>
    distinct (map fst (fold (\<lambda>(key, value) m. AList.update key (f key value) m) es m0))"
  by (induction es arbitrary: m0) (auto simp add: distinct_update)

lemma list_all_update:
  "list_all (\<lambda>(key, v). Q key v) m \<Longrightarrow> Q k v \<Longrightarrow> list_all (\<lambda>(key, v). Q key v) (AList.update k v m)"
  by (induction m) auto

lemma list_all_fold_update:
  "list_all (\<lambda>(key, v). Q key v) m0 \<Longrightarrow> list_all (\<lambda>(key, v). Q key (f key v)) es \<Longrightarrow>
    list_all (\<lambda>(key, v). Q key v) (fold (\<lambda>(key, value) m. AList.update key (f key value) m) es m0)"
  by (induction es arbitrary: m0) (auto simp add: list_all_update)

lemma store_ok_lookup:
  "store_ok h s \<Longrightarrow> map_of (devices s) did = Some device \<Longrightarrow>
    \<exists>a. State device = Some a \<and> a < length h"
  by (auto simp add: store_ok_def list_all_iff dest!: map_of_SomeD split: option.splits)

lemma map_of_assigned:
  "distinct (map fst es) \<Longrightarrow>
    map_of (assigned P kind es m0) k =
      (case map_of es k of Some v \<Rightarrow> Some (normalizeValue P kind k v) | None \<Rightarrow> map_of m0 k)"
  unfolding assigned_def by (rule map_of_fold_update)

lemma distinct_assigned: "distinct (map fst m0) \<Longrightarrow> distinct (map fst (assigned P kind es m0))"
  unfolding assigned_def by (rule distinct_fold_update)

lemma assigned_Nil [simp]: "assigned P kind [] m0 = m0"
  by (simp add: assigned_def)

text \<open>What \<^verbatim>\<open>Update\<close> does to a device the store holds, and \<^verbatim>\<open>Get\<close> likewise.\<close>

lemma Update_eq:
  assumes "store_ok h s" and "map_of (devices s) did = Some device" and "State device = Some a"
  shows "Update P h s did state =
    (h[a := assigned P (Kind device) (map_entries state) (entries h a)]
       @ [assigned P (Kind device) (map_entries state) (entries h a)],
     Inr (device\<lparr>State := Some (length h)\<rparr>))"
proof -
  let ?m = "assigned P (Kind device) (map_entries state) (entries h a)"
  have a: "a < length h" using store_ok_lookup [OF assms(1,2)] assms(3) by simp
  have ok: "heap_ok h" using assms(1) by (simp add: store_ok_def)
  have ok1: "heap_ok (h[a := ?m])"
    using ok by (intro heap_ok_update distinct_assigned heap_ok_entries)
  have st: "state_of (h[a := ?m]) device = ?m"
    using a by (simp add: state_of_def assms(3) entries_list_update)
  show ?thesis
    using assms(2) by (simp add: Update_def assign_entries_eq [OF assms(3) a] copy_device_eq [OF ok1] st)
qed

lemma Get_eq:
  assumes "heap_ok h" and "map_of (devices s) did = Some device"
  shows "Get h s did = (h @ [state_of h device], Some (device\<lparr>State := Some (length h)\<rparr>))"
  using assms by (simp add: Get_def copy_device_eq)

lemma Update_unknown:
  "map_of (devices s) did = None \<Longrightarrow>
    Update P h s did state = (h, Inl (ErrorString (''device not found: '' @ did)))"
  by (simp add: Update_def)

lemma state_of_append:
  "State device = Some a \<Longrightarrow> a < length h \<Longrightarrow> state_of (h @ [m]) device = state_of h device"
  by (simp add: state_of_def entries_new_map)

lemma state_of_copy [simp]: "state_of (h @ [m]) (device\<lparr>State := Some (length h)\<rparr>) = m"
  by (simp add: state_of_def entries_new_map)

text \<open>\<^verbatim>\<open>Update\<close> keeps the store well formed.\<close>

lemma store_ok_grow:
  "store_ok h s \<Longrightarrow> distinct (map fst m) \<Longrightarrow> store_ok (h @ [m]) s"
  by (auto simp add: store_ok_def heap_ok_append list_all_iff split: option.splits)

lemma store_ok_assign:
  "store_ok h s \<Longrightarrow> distinct (map fst m) \<Longrightarrow> store_ok (h[a := m]) s"
  by (simp add: store_ok_def heap_ok_update cong: option.case_cong)

lemma Update_store_ok:
  assumes "store_ok h s"
  shows "store_ok (fst (Update P h s did state)) s"
proof (cases "map_of (devices s) did")
  case None
  then show ?thesis using assms by (simp add: Update_unknown)
next
  case (Some device)
  obtain a where a: "State device = Some a" "a < length h"
    using store_ok_lookup [OF assms Some] by blast
  have d: "distinct (map fst (assigned P (Kind device) (map_entries state) (entries h a)))"
    using assms by (intro distinct_assigned heap_ok_entries) (simp add: store_ok_def)
  show ?thesis
    by (simp add: Update_eq [OF assms Some a(1)] store_ok_grow store_ok_assign assms d)
qed

lemma registry_state_grow:
  assumes "store_ok h s"
  shows "registry_state (h @ [m]) s = registry_state h s"
proof -
  have "\<And>did device. (did, device) \<in> set (devices s) \<Longrightarrow>
      state_of (h @ [m]) device = state_of h device"
    using assms
    by (auto simp add: store_ok_def list_all_iff state_of_def entries_new_map split: option.splits)
  then show ?thesis by (auto simp add: registry_state_def)
qed

lemma assign_same: "a < length h \<Longrightarrow> h[a := entries h a] = h"
  by (simp add: entries_def)

lemma broadcastMessage_eq:
  "broadcastMessage write_ok clients message =
    (map (\<lambda>client. (client, message)) (filter write_ok clients), filter write_ok clients)"
  by (induction clients) simp_all

lemma store1_ok: "store_ok heap1 store1"
  by (simp add: store_ok_def heap_ok_def heap1_def heap0_def store1_def blind1_def thermo1_def
      lamp1_def)

subsection \<open>C3: \<^verbatim>\<open>Get\<close> after \<^verbatim>\<open>Update\<close>\<close>

lemma normalize_below_half:
  "normalizeValue P ''blind'' ''position'' (VFloat64 (Fin (1 / 2 - 1 / 2 ^ 54))) = VInt 1"
proof -
  have "(1 / 2 - 1 / 2 ^ 54 :: rat) + 1 / 2 = 1 - 1 / 2 ^ 54" by simp
  then have s: "float_add round64 (Fin (1 / 2 - 1 / 2 ^ 54)) (Fin (1 / 2)) = Fin 1"
    by (simp only: float_add.simps round64_below_one)
  have "clampToInt P (VFloat64 (Fin (1 / 2 - 1 / 2 ^ 54))) 0 100 = clampInt (float_to_int P (Fin 1)) 0 100"
    by (simp only: clampToInt.simps s)
  also have "\<dots> = 1" by (simp add: float_to_int_def clampInt_def)
  finally show ?thesis
    by (simp only: normalize_percent numeric_kind_def numeric_key_def simp_thms)
qed

lemma nearest_percent_below_half: "nearest_percent (1 / 2 - 1 / 2 ^ 54) = VInt 0"
proof -
  have "\<lfloor>(1 / 2 - 1 / 2 ^ 54 :: rat) + 1 / 2\<rfloor> = 0" by (rule floor_unique) simp_all
  then show ?thesis unfolding nearest_percent_def by simp
qed

lemma regular64_example: "regular64 (85 / 2)"
proof -
  have "round64 (85 / 2) = Fin (85 / 2)"
    by (rule round64_exact [where m = 85 and k = "- 1"]) (simp_all add: power_int_minus)
  moreover have "round64 (85 / 2 + 1 / 2) = Fin 43"
    using round64_exact [where x = 43 and m = 43 and k = 0] by simp
  moreover have "fits_int (Fin 43)" by (simp add: fits_int_def)
  moreover have "(85 / 2 :: rat) \<noteq> 1 / 2 - 1 / 2 ^ 54" by simp
  ultimately show ?thesis unfolding regular64_def by (simp only: simp_thms)
qed

lemma nearest_percent_example: "nearest_percent (85 / 2) = VInt 43"
proof -
  have "\<lfloor>(85 / 2 :: rat) + 1 / 2\<rfloor> = 43" by (rule floor_unique) simp_all
  then show ?thesis unfolding nearest_percent_def by simp
qed

text \<open>\<^verbatim>\<open>Update\<close> of the blind of the sample registry with one position, and \<^verbatim>\<open>Get\<close> after it.\<close>

lemma blind_position_round_trip:
  assumes "normalizeValue P ''blind'' ''position'' v = w"
  shows "Update P heap1 store1 ''blind1'' (Some [(''position'', v)])
        = (heap1[4 := [(''position'', w)]] @ [[(''position'', w)]], Inr (blind1\<lparr>State := Some 7\<rparr>))"
    and "Get (heap1[4 := [(''position'', w)]] @ [[(''position'', w)]]) store1 ''blind1''
        = ((heap1[4 := [(''position'', w)]] @ [[(''position'', w)]]) @ [[(''position'', w)]],
           Some (blind1\<lparr>State := Some 8\<rparr>))"
proof -
  let ?h = "heap1[4 := [(''position'', w)]] @ [[(''position'', w)]]"
  have l: "map_of (devices store1) ''blind1'' = Some (blind1\<lparr>State := Some 4\<rparr>)"
    by (simp add: store1_def)
  have k: "Kind (blind1\<lparr>State := Some 4\<rparr>) = ''blind''" by (simp add: blind1_def)
  have e: "entries heap1 4 = [(''position'', VInt 20)]"
    by (simp add: entries_def heap1_def heap0_def)
  have len: "length heap1 = 7" by (simp add: heap1_def heap0_def)
  have m: "assigned P ''blind'' (map_entries (Some [(''position'', v)])) [(''position'', VInt 20)]
      = [(''position'', w)]"
    by (simp add: assigned_def map_entries_def assms)
  show u: "Update P heap1 store1 ''blind1'' (Some [(''position'', v)])
      = (?h, Inr (blind1\<lparr>State := Some 7\<rparr>))"
    using Update_eq [OF store1_ok l, of 4 P "Some [(''position'', v)]"]
    by (simp only: k e m len) simp
  have "store_ok ?h store1"
    using Update_store_ok [OF store1_ok, of P "''blind1''" "Some [(''position'', v)]"]
    by (simp only: u fst_conv)
  then have ok: "heap_ok ?h" by (simp add: store_ok_def)
  have st: "state_of ?h (blind1\<lparr>State := Some 4\<rparr>) = [(''position'', w)]"
    by (simp add: state_of_def entries_def len nth_append)
  have len': "length ?h = 8" by (simp add: len)
  show "Get ?h store1 ''blind1'' = (?h @ [[(''position'', w)]], Some (blind1\<lparr>State := Some 8\<rparr>))"
    using Get_eq [OF ok l] by (simp only: st len') simp
qed

text \<open>
  C3, as the spec states it, fails where the normalization of the code is not the one of
  the policy table.  The string \<^verbatim>\<open>"42"\<close> as a blind's position is stored as 0, where the
  spec reads it as the number 42; and the largest \<^verbatim>\<open>float64\<close> below one half (printed
  \<^verbatim>\<open>0.49999999999999994\<close>) is stored as 1, where the nearest integer is 0.  \<^verbatim>\<open>Get\<close> after
  \<^verbatim>\<open>Update\<close> returns these stored values.
\<close>

theorem get_after_update_counterexample:
  "Update amd64 heap1 store1 ''blind1'' (Some [(''position'', VString ''42'')])
      = (heap1[4 := [(''position'', VInt 0)]] @ [[(''position'', VInt 0)]],
         Inr (blind1\<lparr>State := Some 7\<rparr>))
    \<and> Get (heap1[4 := [(''position'', VInt 0)]] @ [[(''position'', VInt 0)]]) store1 ''blind1''
      = ((heap1[4 := [(''position'', VInt 0)]] @ [[(''position'', VInt 0)]]) @ [[(''position'', VInt 0)]],
         Some (blind1\<lparr>State := Some 8\<rparr>))
    \<and> nearest_percent 42 = VInt 42
    \<and> Update amd64 heap1 store1 ''blind1'' (Some [(''position'', VFloat64 (Fin (1 / 2 - 1 / 2 ^ 54)))])
      = (heap1[4 := [(''position'', VInt 1)]] @ [[(''position'', VInt 1)]],
         Inr (blind1\<lparr>State := Some 7\<rparr>))
    \<and> Get (heap1[4 := [(''position'', VInt 1)]] @ [[(''position'', VInt 1)]]) store1 ''blind1''
      = ((heap1[4 := [(''position'', VInt 1)]] @ [[(''position'', VInt 1)]]) @ [[(''position'', VInt 1)]],
         Some (blind1\<lparr>State := Some 8\<rparr>))
    \<and> nearest_percent (1 / 2 - 1 / 2 ^ 54) = VInt 0"
proof -
  have a: "normalizeValue amd64 ''blind'' ''position'' (VString ''42'') = VInt 0"
    by (simp add: normalizeValue_def)
  have n: "nearest_percent 42 = VInt 42"
    using nearest_percent_int [of 42] by (simp add: clampInt_def)
  show ?thesis
    using blind_position_round_trip [OF a] blind_position_round_trip [OF normalize_below_half]
      n nearest_percent_below_half
    by (simp only: simp_thms)
qed

text \<open>
  C3, amended: for a device the registry holds and a partial state (a Go map, so its keys
  are unique) at every value of which the policy table gives a result, \<^verbatim>\<open>Update\<close>
  succeeds and \<^verbatim>\<open>Get\<close> after it returns the device with the merge of its prior state and
  the partial state: a key of the partial state maps to what the policy table makes of the
  supplied value, any other key keeps its prior value.  The device \<^verbatim>\<open>Update\<close> returns has
  the same fields and the same state.  The policy table is the one of the spec with a
  value that is no number, a plain string among them, giving the lower bound of a numeric
  rule; it gives no result, and nothing is stated here, at the floats of the position and
  level rule that are not regular and at a NaN under the temperature rule.
\<close>

theorem update_then_get_is_normalized_merge:
  assumes "store_ok h s" and "map_of (devices s) did = Some device"
    and "distinct (map fst (map_entries state))"
    and "policy_defined P (Kind device) state"
  shows "\<exists>h1 h2 updated got.
      Update P h s did state = (h1, Inr updated) \<and> Get h1 s did = (h2, Some got)
      \<and> same_identity got device \<and> same_identity updated device
      \<and> map_of (state_of h2 got) = policy_merge P (Kind device) (state_of h device) state
      \<and> state_of h1 updated = state_of h2 got"
proof -
  obtain a where a: "State device = Some a" "a < length h"
    using store_ok_lookup [OF assms(1,2)] by blast
  let ?m = "assigned P (Kind device) (map_entries state) (entries h a)"
  let ?h1 = "h[a := ?m] @ [?m]"
  have u: "Update P h s did state = (?h1, Inr (device\<lparr>State := Some (length h)\<rparr>))"
    by (rule Update_eq [OF assms(1,2) a(1)])
  have "store_ok ?h1 s" using Update_store_ok [OF assms(1), of P did state] by (simp add: u)
  then have ok: "heap_ok ?h1" by (simp add: store_ok_def)
  have st: "state_of ?h1 device = ?m"
    using a by (simp add: state_of_def entries_new_map entries_list_update)
  have g: "Get ?h1 s did = (?h1 @ [?m], Some (device\<lparr>State := Some (length ?h1)\<rparr>))"
    using Get_eq [OF ok assms(2)] by (simp only: st)
  have p: "Some (normalizeValue P (Kind device) key v) = policy P (Kind device) key v"
    if "map_of (map_entries state) key = Some v" for key v
  proof -
    have "(key, v) \<in> set (map_entries state)" using that by (rule map_of_SomeD)
    then have "policy P (Kind device) key v \<noteq> None"
      using assms(4) by (auto simp add: policy_defined_def list_all_iff)
    then obtain w where w: "policy P (Kind device) key v = Some w" by blast
    show ?thesis using policy_normalize [OF w] w by simp
  qed
  have m: "map_of ?m = policy_merge P (Kind device) (state_of h device) state"
  proof (rule ext)
    fix key
    show "map_of ?m key = policy_merge P (Kind device) (state_of h device) state key"
      using p [of key]
      by (cases "map_of (map_entries state) key")
        (simp_all add: map_of_assigned [OF assms(3)] policy_merge_def state_of_def a(1))
  qed
  have s1: "state_of ?h1 (device\<lparr>State := Some (length h)\<rparr>) = ?m"
    using state_of_copy [of "h[a := ?m]" ?m device] by simp
  have s2: "state_of (?h1 @ [?m]) (device\<lparr>State := Some (length ?h1)\<rparr>) = ?m"
    by (rule state_of_copy)
  show ?thesis
    unfolding u
    apply (intro exI conjI)
         apply (rule refl)
        apply (rule g)
       apply (simp add: same_identity_def)
      apply (simp add: same_identity_def)
     apply (simp only: s2 m)
    apply (simp only: s1 s2)
    done
qed

text \<open>
  The amended C3 on the sample registry: the lamp is switched on with the string \<^verbatim>\<open>"On"\<close>,
  and the blind is set to 42.5.
\<close>

theorem update_then_get_is_normalized_merge_witness:
  "store_ok heap1 store1
    \<and> map_of (devices store1) ''lamp1'' = Some (lamp1\<lparr>State := Some 6\<rparr>)
    \<and> policy_defined amd64 ''toggle'' (Some [(''on'', VString ''On'')])
    \<and> (\<exists>h1 h2 updated got.
          Update amd64 heap1 store1 ''lamp1'' (Some [(''on'', VString ''On'')]) = (h1, Inr updated)
          \<and> Get h1 store1 ''lamp1'' = (h2, Some got)
          \<and> map_of (state_of h2 got) ''on'' = Some (VBool True)
          \<and> map_of (state_of h2 got) ''scene'' = Some (VMap 3)
          \<and> state_of h1 updated = state_of h2 got)
    \<and> map_of (devices store1) ''blind1'' = Some (blind1\<lparr>State := Some 4\<rparr>)
    \<and> policy_defined amd64 ''blind'' (Some [(''position'', VFloat64 (Fin (85 / 2)))])
    \<and> (\<exists>h1 h2 updated got.
          Update amd64 heap1 store1 ''blind1'' (Some [(''position'', VFloat64 (Fin (85 / 2)))])
            = (h1, Inr updated)
          \<and> Get h1 store1 ''blind1'' = (h2, Some got)
          \<and> map_of (state_of h2 got) ''position'' = Some (VInt 43)
          \<and> state_of h1 updated = state_of h2 got)"
proof -
  let ?lamp = "lamp1\<lparr>State := Some 6\<rparr>"
  let ?on = "Some [(''on'', VString ''On'')]"
  let ?blind = "blind1\<lparr>State := Some 4\<rparr>"
  let ?pos = "Some [(''position'', VFloat64 (Fin (85 / 2)))]"
  have l: "map_of (devices store1) ''lamp1'' = Some ?lamp" by (simp add: store1_def)
  have b: "map_of (devices store1) ''blind1'' = Some ?blind" by (simp add: store1_def)
  have d: "distinct (map fst (map_entries ?on))" "distinct (map fst (map_entries ?pos))"
    by (simp_all add: map_entries_def)
  have kl: "Kind ?lamp = ''toggle''" and kb: "Kind ?blind = ''blind''"
    by (simp_all add: lamp1_def blind1_def)
  have pl: "policy_defined amd64 ''toggle'' ?on"
    by (simp add: policy_defined_def map_entries_def policy_def numeric_kind_def boolean_kind_def
        boolean_key_def)
  have pv: "policy amd64 ''blind'' ''position'' (VFloat64 (Fin (85 / 2))) = Some (VInt 43)"
    by (simp add: policy_def numeric_kind_def numeric_key_def regular64_example
        nearest_percent_example)
  have pb: "policy_defined amd64 ''blind'' ?pos"
    by (simp add: policy_defined_def map_entries_def pv)
  obtain h1 h2 updated got where r:
    "Update amd64 heap1 store1 ''lamp1'' ?on = (h1, Inr updated)"
    "Get h1 store1 ''lamp1'' = (h2, Some got)"
    "map_of (state_of h2 got) = policy_merge amd64 (Kind ?lamp) (state_of heap1 ?lamp) ?on"
    "state_of h1 updated = state_of h2 got"
    using update_then_get_is_normalized_merge [OF store1_ok l d(1), of amd64] pl
    unfolding kl by blast
  have "map_of (state_of h2 got) ''on'' = Some (VBool True)"
    "map_of (state_of h2 got) ''scene'' = Some (VMap 3)"
    unfolding r(3)
    by (simp_all add: policy_merge_def map_entries_def policy_def numeric_kind_def
        boolean_kind_def boolean_key_def lamp1_def state_of_def entries_def heap1_def heap0_def
        to_lower_def char_of_eq_iff)
  then have 1: "\<exists>h1 h2 updated got.
      Update amd64 heap1 store1 ''lamp1'' ?on = (h1, Inr updated)
      \<and> Get h1 store1 ''lamp1'' = (h2, Some got)
      \<and> map_of (state_of h2 got) ''on'' = Some (VBool True)
      \<and> map_of (state_of h2 got) ''scene'' = Some (VMap 3)
      \<and> state_of h1 updated = state_of h2 got"
    using r(1,2,4) by blast
  obtain k1 k2 upd gt where q:
    "Update amd64 heap1 store1 ''blind1'' ?pos = (k1, Inr upd)"
    "Get k1 store1 ''blind1'' = (k2, Some gt)"
    "map_of (state_of k2 gt) = policy_merge amd64 (Kind ?blind) (state_of heap1 ?blind) ?pos"
    "state_of k1 upd = state_of k2 gt"
    using update_then_get_is_normalized_merge [OF store1_ok b d(2), of amd64] pb
    unfolding kb by blast
  have "map_of (state_of k2 gt) ''position'' = Some (VInt 43)"
    unfolding q(3) by (simp add: policy_merge_def map_entries_def kb pv)
  then have 2: "\<exists>h1 h2 updated got.
      Update amd64 heap1 store1 ''blind1'' ?pos = (h1, Inr updated)
      \<and> Get h1 store1 ''blind1'' = (h2, Some got)
      \<and> map_of (state_of h2 got) ''position'' = Some (VInt 43)
      \<and> state_of h1 updated = state_of h2 got"
    using q(1,2,4) by blast
  show ?thesis using store1_ok l b pl pb 1 2 by blast
qed

subsection \<open>C5: values of a type the rule has no case for\<close>

text \<open>
  C5, as the spec states it, fails for the thermostat: a value that cannot be read as a
  number does not give 0.0.  \<^verbatim>\<open>clampToFloat\<close> ends with \<^verbatim>\<open>return min\<close>, so a map given as
  the temperature gives the lower bound 10.
\<close>

theorem temperature_default_counterexample:
  "normalizeValue amd64 ''thermostat'' ''temperature'' (VMap 3) = VFloat64 (Fin 10)
    \<and> VFloat64 (Fin 10) \<noteq> VFloat64 (Fin 0)"
  by (simp add: normalizeValue_def)

text \<open>
  C5, amended: normalization never rejects an update.  A value of a type the rule has no
  case for, or a \<^verbatim>\<open>json.Number\<close> whose text does not parse, gives \<open>false\<close> under the boolean
  rule and the lower bound of the range under a numeric rule (0 for position and level,
  10.0 for the temperature); and \<^verbatim>\<open>Update\<close> of a device the registry holds returns a device,
  whatever the values are.
\<close>

theorem mistyped_values_give_defaults:
  "(numeric_kind kind \<and> numeric_key key \<and> no_number v \<longrightarrow> normalizeValue P kind key v = VInt 0)
    \<and> (numeric_kind kind \<and> numeric_key key \<and> ParseInt t = None
          \<longrightarrow> normalizeValue P kind key (VNumber t) = VInt 0)
    \<and> (no_number v \<longrightarrow> normalizeValue P ''thermostat'' ''temperature'' v = VFloat64 (Fin 10))
    \<and> (ParseFloat P t = None
          \<longrightarrow> normalizeValue P ''thermostat'' ''temperature'' (VNumber t) = VFloat64 (Fin 10))
    \<and> (boolean_kind kind \<and> boolean_key key \<and> no_boolean v
          \<longrightarrow> normalizeValue P kind key v = VBool False)
    \<and> (store_ok h s \<and> map_of (devices s) did = Some device
          \<longrightarrow> (\<exists>h' updated. Update P h s did state = (h', Inr updated)))"
proof -
  have "no_number v \<Longrightarrow> clampToInt P v 0 100 = 0"
    and "no_number v \<Longrightarrow> clampToFloat P v (Fin 10) (Fin 30) = Fin 10"
    and "no_boolean v \<Longrightarrow> toBool v = False"
    by (cases v; simp)+
  moreover have "store_ok h s \<Longrightarrow> map_of (devices s) did = Some device \<Longrightarrow>
      \<exists>h' updated. Update P h s did state = (h', Inr updated)"
    using store_ok_lookup [of h s did device] Update_eq [of h s did device _ P state] by blast
  ultimately show ?thesis
    by (auto simp add: normalize_percent normalize_temperature normalize_boolean)
qed

text \<open>The amended C5 on the sample registry, with a map as the value.\<close>

theorem mistyped_values_give_defaults_witness:
  "normalizeValue amd64 ''blind'' ''level'' (VMap 3) = VInt 0
    \<and> normalizeValue amd64 ''blind'' ''level'' (VNumber ''4.5'') = VInt 0
    \<and> normalizeValue amd64 ''thermostat'' ''temperature'' (VMap 3) = VFloat64 (Fin 10)
    \<and> normalizeValue amd64 ''thermostat'' ''temperature'' (VNumber ''warm'') = VFloat64 (Fin 10)
    \<and> normalizeValue amd64 ''lock'' ''locked'' (VMap 3) = VBool False
    \<and> (\<exists>h' updated.
          Update amd64 heap1 store1 ''thermo1'' (Some [(''temperature'', VMap 3)]) = (h', Inr updated))"
proof -
  have p: "ParseInt ''4.5'' = None"
    by (simp add: ParseInt_def ParseUint_def is_digit_def)
  have f: "ParseFloat amd64 ''warm'' = None" by (simp add: amd64_def)
  have l: "map_of (devices store1) ''thermo1'' = Some (thermo1\<lparr>State := Some 5\<rparr>)"
    by (simp add: store1_def)
  show ?thesis
    using mistyped_values_give_defaults [of "''blind''" "''level''" "VMap 3" amd64 "''4.5''"
        heap1 store1 "''thermo1''" "thermo1\<lparr>State := Some 5\<rparr>" "Some [(''temperature'', VMap 3)]"]
      mistyped_values_give_defaults [of "''lock''" "''locked''" "VMap 3" amd64 "''warm''"]
      p f l store1_ok
    by (simp add: numeric_kind_def numeric_key_def boolean_kind_def boolean_key_def)
qed

subsection \<open>C6: an unknown device id\<close>



subsection \<open>C9: a \<^verbatim>\<open>set\<close> message without state\<close>

text \<open>
  C9: on the websocket path a \<^verbatim>\<open>set\<close> message that names a device of the registry and has
  an empty or absent state map is not rejected: \<^verbatim>\<open>Update\<close> succeeds, the state of every
  device stays as it was, and a snapshot of the device, with the device's fields and
  state, is sent on the broadcast channel, from where \<^verbatim>\<open>Run\<close> writes a message of type
  \<^verbatim>\<open>update\<close> that carries this snapshot to every client (each client whose write succeeds
  receives it).  The HTTP handler answers the same request with status 400 and the error
  \<^verbatim>\<open>missing state\<close>, sends nothing on the broadcast channel and does not touch the
  registry.
\<close>

theorem ws_set_without_state_is_broadcast:
  assumes "store_ok h s" and "map_of (devices s) did = Some device" and "did \<noteq> []"
    and "map_entries state = []"
  shows "HandleWS_message P h s c \<lparr>set_Type = ''set'', set_ID = did, set_State = state\<rparr>
        = (h @ [state_of h device], [Broadcast (device\<lparr>State := Some (length h)\<rparr>)])
    \<and> registry_state (h @ [state_of h device]) s = registry_state h s
    \<and> state_of (h @ [state_of h device]) (device\<lparr>State := Some (length h)\<rparr>) = state_of h device
    \<and> Run_step write_ok clients (device\<lparr>State := Some (length h)\<rparr>)
        = (map (\<lambda>client.
                  (client,
                   \<lparr>msg_Type = ''update'', msg_Device = Some (device\<lparr>State := Some (length h)\<rparr>),
                    msg_Devices = [], msg_Error = []\<rparr>))
             (filter write_ok clients),
           filter write_ok clients)
    \<and> device_handler P h s PUT did (Some state)
        = (h, Some \<lparr>status = 400, payload = ErrorBody ''missing state''\<rparr>, [])"
proof -
  obtain a where a: "State device = Some a" "a < length h"
    using store_ok_lookup [OF assms(1,2)] by blast
  have u: "Update P h s did state
      = (h @ [state_of h device], Inr (device\<lparr>State := Some (length h)\<rparr>))"
    using a by (simp add: Update_eq [OF assms(1,2) a(1)] assms(4) assign_same state_of_def)
  show ?thesis
    using assms(3,4)
    by (simp add: HandleWS_message_def u registry_state_grow [OF assms(1)] Run_step_def
        broadcastMessage_eq device_handler_def update_message_def writeError_def)
qed

text \<open>C9 on the sample registry, with two clients connected.\<close>

theorem ws_set_without_state_is_broadcast_witness:
  "store_ok heap1 store1
    \<and> map_of (devices store1) ''blind1'' = Some (blind1\<lparr>State := Some 4\<rparr>)
    \<and> HandleWS_message amd64 heap1 store1 7
          \<lparr>set_Type = ''set'', set_ID = ''blind1'', set_State = None\<rparr>
        = (heap1 @ [[(''position'', VInt 20)]], [Broadcast (blind1\<lparr>State := Some 7\<rparr>)])
    \<and> registry_state (heap1 @ [[(''position'', VInt 20)]]) store1 = registry_state heap1 store1
    \<and> fst (Run_step (\<lambda>client. True) [7, 8] (blind1\<lparr>State := Some 7\<rparr>))
        = [(7, \<lparr>msg_Type = ''update'', msg_Device = Some (blind1\<lparr>State := Some 7\<rparr>),
                msg_Devices = [], msg_Error = []\<rparr>),
           (8, \<lparr>msg_Type = ''update'', msg_Device = Some (blind1\<lparr>State := Some 7\<rparr>),
                msg_Devices = [], msg_Error = []\<rparr>)]
    \<and> device_handler amd64 heap1 store1 PUT ''blind1'' (Some None)
        = (heap1, Some \<lparr>status = 400, payload = ErrorBody ''missing state''\<rparr>, [])"
proof -
  have l: "map_of (devices store1) ''blind1'' = Some (blind1\<lparr>State := Some 4\<rparr>)"
    by (simp add: store1_def)
  have e: "map_entries None = []" by (simp add: map_entries_def)
  have n: "''blind1'' \<noteq> []" by simp
  have st: "state_of heap1 (blind1\<lparr>State := Some 4\<rparr>) = [(''position'', VInt 20)]"
    by (simp add: state_of_def entries_def heap1_def heap0_def)
  have len: "length heap1 = 7" by (simp add: heap1_def heap0_def)
  show ?thesis
    using store1_ok l
      ws_set_without_state_is_broadcast [OF store1_ok l n e, of amd64 7 "\<lambda>client. True" "[7, 8]"]
    by (simp add: st len)
qed

subsection \<open>C10: a catalog without devices\<close>

text \<open>
  C10: when the catalog file decodes to an empty list of devices, \<^verbatim>\<open>loadDevices\<close> returns
  the error \<^verbatim>\<open>no devices defined\<close> and \<^verbatim>\<open>main\<close> stops before it builds the store.
\<close>

theorem empty_catalog_is_fatal:
  "loadDevices h (Decoded []) = (h, Inl (ErrorString ''no devices defined''))
    \<and> main_startup h (Decoded []) = Fatal ''failed to load devices: no devices defined''"
  by (simp add: loadDevices_def main_startup_def)

text \<open>C10 with the heap that the decoder leaves when there is nothing to decode.\<close>

theorem empty_catalog_is_fatal_witness:
  "main_startup [] (Decoded []) = Fatal ''failed to load devices: no devices defined''"
  using empty_catalog_is_fatal [of "[]"] by simp

subsection \<open>C4: rounding a position\<close>

lemma float64_below_half: "round64 (1 / 2 - 1 / 2 ^ 54) = Fin (1 / 2 - 1 / 2 ^ 54)"
  by (rule round64_exact [where m = "2 ^ 53 - 1" and k = "- 54"]) simp_all

text \<open>
  C4: the code breaks the claim at one input.  The largest \<^verbatim>\<open>float64\<close> below one half,
  \<open>1 / 2 - 1 / 2 ^ 54\<close> (printed \<^verbatim>\<open>0.49999999999999994\<close>), is nearest to the integer 0, but
  \<^verbatim>\<open>int(number+0.5)\<close> gives 1 for it: the sum \<open>1 - 1 / 2 ^ 54\<close> is not a \<^verbatim>\<open>float64\<close> and
  is rounded to \<open>1\<close>.  So updating a blind's position to this number stores 1.
\<close>

theorem position_below_half_rounds_up:
  "round64 (1 / 2 - 1 / 2 ^ 54) = Fin (1 / 2 - 1 / 2 ^ 54)
    \<and> \<bar>(1 / 2 - 1 / 2 ^ 54 :: rat) - 0\<bar> < 1 / 2
    \<and> normalizeValue P ''blind'' ''position'' (VFloat64 (Fin (1 / 2 - 1 / 2 ^ 54))) = VInt 1"
proof (intro conjI)
  show "round64 (1 / 2 - 1 / 2 ^ 54) = Fin (1 / 2 - 1 / 2 ^ 54)" by (rule float64_below_half)
  show "\<bar>(1 / 2 - 1 / 2 ^ 54 :: rat) - 0\<bar> < 1 / 2" by simp
  have "(1 / 2 - 1 / 2 ^ 54 :: rat) + 1 / 2 = 1 - 1 / 2 ^ 54" by simp
  then have s: "float_add round64 (Fin (1 / 2 - 1 / 2 ^ 54)) (Fin (1 / 2)) = Fin 1"
    by (simp only: float_add.simps round64_below_one)
  have "clampToInt P (VFloat64 (Fin (1 / 2 - 1 / 2 ^ 54))) 0 100 = clampInt (float_to_int P (Fin 1)) 0 100"
    by (simp only: clampToInt.simps s)
  also have "\<dots> = 1" by (simp add: float_to_int_def clampInt_def)
  finally show "normalizeValue P ''blind'' ''position'' (VFloat64 (Fin (1 / 2 - 1 / 2 ^ 54))) = VInt 1"
    by (simp only: normalize_percent numeric_kind_def numeric_key_def simp_thms)
qed

text \<open>
  What holds of C4: the three examples of the spec, with the number given as an integer
  or as the \<^verbatim>\<open>float64\<close> the JSON decoder makes of it (for \<^verbatim>\<open>42.6\<close> the nearest
  \<^verbatim>\<open>float64\<close>), and the bounds of the result for every value.
\<close>

lemma float64_of_42_6: "round64 (213 / 5) = Fin (5995417003936973 / 2 ^ 47)"
proof -
  have f: "\<lfloor>(213 * 2 ^ 47 / 5 :: rat)\<rfloor> = 5995417003936972"
    by (rule floor_unique) simp_all
  have h: "round_half_even ((213 / 5) / 2 powi (max 5 (- 1022) - int 53 + 1)) = 5995417003936973"
    using f by (simp add: round_half_even_def power_int_minus)
  have "round64 (213 / 5) = Fin (of_int 5995417003936973 * 2 powi (max 5 (- 1022) - int 53 + 1))"
    unfolding round64_def by (rule round_to_format_eval [OF _ _ refl h]) (simp_all add: power_int_minus)
  then show ?thesis by (simp add: power_int_minus)
qed

lemma position_examples:
  "normalizeValue P ''blind'' ''position'' (VInt 150) = VInt 100
    \<and> normalizeValue P ''blind'' ''position'' (VInt (- 5)) = VInt 0
    \<and> normalizeValue P ''blind'' ''position'' (VFloat64 (Fin 150)) = VInt 100
    \<and> normalizeValue P ''blind'' ''position'' (VFloat64 (Fin (- 5))) = VInt 0
    \<and> normalizeValue P ''blind'' ''position'' (VFloat64 (round64 (213 / 5))) = VInt 43"
proof -
  have a: "round64 (150 + 1 / 2) = Fin (150 + 1 / 2)"
    using half_integer_float64 [of 150] by simp
  have b: "round64 (- 5 + 1 / 2) = Fin (- 5 + 1 / 2)"
    using half_integer_float64 [of "- 5"] by simp
  have c: "round64 (5995417003936973 / 2 ^ 47 + 1 / 2) = Fin (5995417003936973 / 2 ^ 47 + 1 / 2)"
    by (rule round64_exact [where m = 6065785748114637 and k = "- 47"]) simp_all
  have fa: "float_to_int P (Fin (150 + 1 / 2)) = 150"
    using float_to_int_half [of 150 P] by simp
  have fb: "float_to_int P (Fin (- 5 + 1 / 2)) = - 4"
    using float_to_int_half [of "- 5" P] by simp
  have t: "\<lfloor>(5995417003936973 / 2 ^ 47 + 1 / 2 :: rat)\<rfloor> = 43"
    by (rule floor_unique) simp_all
  have fc: "float_to_int P (Fin (5995417003936973 / 2 ^ 47 + 1 / 2)) = 43"
    unfolding float_to_int_def using t by (simp add: Let_def)
  show ?thesis
    unfolding float64_of_42_6
    by (simp only: normalizeValue_def clampToInt.simps float_add.simps a b c fa fb fc)
      (simp add: clampInt_def)
qed

section \<open>Building the store and listing it\<close>

lemma entries_append: "a < length h \<Longrightarrow> entries (h @ t) a = entries h a"
  by (simp add: entries_def nth_append)

lemma state_of_grow: "allocated h device \<Longrightarrow> state_of (h @ t) device = state_of h device"
  by (auto simp add: allocated_def state_of_def entries_append split: option.splits)

lemma allocated_grow: "allocated h device \<Longrightarrow> allocated (h @ t) device"
  by (auto simp add: allocated_def split: option.splits)

lemma heap_ok_append2: "heap_ok (h @ t) = (heap_ok h \<and> heap_ok t)"
  by (simp add: heap_ok_def)

lemma map_field_snapshots [simp]:
  "map ID (snapshots n ds) = map ID ds" "map Name (snapshots n ds) = map Name ds"
  "map Kind (snapshots n ds) = map Kind ds" "map Room (snapshots n ds) = map Room ds"
  by (induction ds arbitrary: n) simp_all

lemma length_snapshots [simp]: "length (snapshots n ds) = length ds"
  by (induction ds arbitrary: n) simp_all

lemma map_State_snapshots: "map State (snapshots n ds) = map Some [n ..< n + length ds]"
  by (induction ds arbitrary: n) (simp_all add: upt_rec)

lemma snapshots_append: "snapshots n (xs @ ys) = snapshots n xs @ snapshots (n + length xs) ys"
  by (induction xs arbitrary: n) simp_all

text \<open>The copies read back from the heap they were written to.\<close>

lemma state_of_snapshots:
  "length ms = length ds \<Longrightarrow> map (state_of (h @ ms @ t)) (snapshots (length h) ds) = ms"
proof (induction ds arbitrary: h ms)
  case Nil
  then show ?case by simp
next
  case (Cons d ds)
  then obtain m ms' where ms: "ms = m # ms'" by (cases ms) auto
  have "map (state_of ((h @ [m]) @ ms' @ t)) (snapshots (length (h @ [m])) ds) = ms'"
    using Cons.prems by (intro Cons.IH) (simp add: ms)
  moreover have "state_of (h @ (m # ms') @ t) (d\<lparr>State := Some (length h)\<rparr>) = m"
    by (simp add: state_of_def entries_def nth_append)
  ultimately show ?case by (simp add: ms)
qed

lemma NewStore_loop_eq:
  assumes "heap_ok h" and "list_all (allocated h) c" and "distinct (map ID c)"
    and "ID ` set c \<inter> fst ` set (devices s0) = {}"
  shows "NewStore_loop c (h, s0) =
    (h @ map (state_of h) c,
     \<lparr>devices = devices s0 @ map (\<lambda>device. (ID device, device)) (snapshots (length h) c),
      order = order s0 @ map ID c\<rparr>)"
  using assms
proof (induction c arbitrary: h s0)
  case Nil
  then show ?case by simp
next
  case (Cons d c)
  let ?h = "h @ [state_of h d]"
  let ?copy = "d\<lparr>State := Some (length h)\<rparr>"
  let ?s = "\<lparr>devices = devices s0 @ [(ID d, ?copy)], order = order s0 @ [ID d]\<rparr>"
  have fresh: "ID d \<notin> fst ` set (devices s0)" using Cons.prems(4) by auto
  have ok: "heap_ok ?h" using Cons.prems(1) by (simp add: heap_ok_append heap_ok_state_of)
  have al: "list_all (allocated ?h) c"
    using Cons.prems(2) by (auto simp add: list_all_iff allocated_grow)
  have dis: "ID ` set c \<inter> fst ` set (devices ?s) = {}" using Cons.prems(3,4) by auto
  have st: "map (state_of ?h) c = map (state_of h) c"
    using Cons.prems(2) by (auto simp add: list_all_iff state_of_grow)
  have "NewStore_loop (d # c) (h, s0) = NewStore_loop c (?h, ?s)"
    by (simp add: copy_device_eq [OF Cons.prems(1)] update_fresh_key [OF fresh])
  also have "\<dots> = (?h @ map (state_of ?h) c,
     \<lparr>devices = devices ?s @ map (\<lambda>device. (ID device, device)) (snapshots (length ?h) c),
      order = order ?s @ map ID c\<rparr>)"
    using Cons.prems(3) by (intro Cons.IH [OF ok al _ dis]) simp
  finally show ?case by (simp add: st)
qed

lemma NewStore_eq:
  assumes "catalog_ok h c" and "distinct (map ID c)"
  shows "NewStore h c =
    (h @ map (state_of h) c,
     \<lparr>devices = map (\<lambda>device. (ID device, device)) (snapshots (length h) c),
      order = map ID c\<rparr>)"
  using assms NewStore_loop_eq [of h c "\<lparr>devices = [], order = []\<rparr>"]
  by (simp add: NewStore_def catalog_ok_def)

lemma held_Cons:
  "held s (i # ids) = (case map_of (devices s) i of None \<Rightarrow> held s ids | Some d \<Rightarrow> d # held s ids)"
  by (simp add: held_def split: option.splits)

lemma held_Nil [simp]: "held s [] = []"
  by (simp add: held_def)

lemma held_allocated:
  assumes "store_ok h s"
  shows "list_all (allocated h) (held s ids)"
proof -
  have "\<And>did. map_of (devices s) did \<noteq> None \<Longrightarrow> allocated h (the (map_of (devices s) did))"
    using store_ok_lookup [OF assms] by (fastforce simp add: allocated_def)
  then show ?thesis by (simp add: held_def list_all_iff)
qed

lemma List_loop_eq:
  assumes "store_ok h s"
  shows "List_loop s ids (h, out) =
    (h @ map (state_of h) (held s ids), out @ snapshots (length h) (held s ids))"
  using assms
proof (induction ids arbitrary: h out)
  case Nil
  then show ?case by simp
next
  case (Cons i ids)
  show ?case
  proof (cases "map_of (devices s) i")
    case None
    then show ?thesis using Cons by (simp add: held_Cons)
  next
    case (Some d)
    let ?h = "h @ [state_of h d]"
    have ok: "heap_ok h" using Cons.prems by (simp add: store_ok_def)
    have ok1: "store_ok ?h s" using Cons.prems ok by (simp add: store_ok_grow heap_ok_state_of)
    have st: "map (state_of ?h) (held s ids) = map (state_of h) (held s ids)"
      using held_allocated [OF Cons.prems, of ids] by (auto simp add: list_all_iff state_of_grow)
    have "List_loop s (i # ids) (h, out)
        = List_loop s ids (?h, out @ [d\<lparr>State := Some (length h)\<rparr>])"
      by (simp add: Some copy_device_eq [OF ok])
    also have "\<dots> = (?h @ map (state_of ?h) (held s ids),
        (out @ [d\<lparr>State := Some (length h)\<rparr>]) @ snapshots (length ?h) (held s ids))"
      by (rule Cons.IH [OF ok1])
    finally show ?thesis by (simp add: st Some held_Cons)
  qed
qed

lemma List_eq:
  "store_ok h s \<Longrightarrow>
    List h s = (h @ map (state_of h) (held s (order s)), snapshots (length h) (held s (order s)))"
  by (simp add: List_def List_loop_eq)

lemma lookup_own_id:
  "distinct (map ID ds) \<Longrightarrow> d \<in> set ds \<Longrightarrow>
    map_of (map (\<lambda>device. (ID device, device)) ds) (ID d) = Some d"
proof (induction ds)
  case Nil
  then show ?case by simp
next
  case (Cons e ds)
  show ?case
  proof (cases "d = e")
    case True
    then show ?thesis by simp
  next
    case False
    then have d: "d \<in> set ds" using Cons.prems by simp
    have "ID e \<notin> set (map ID ds)" using Cons.prems by simp
    then have "ID d \<noteq> ID e" using d by (metis image_eqI list.set_map)
    then show ?thesis using Cons d by simp
  qed
qed

lemma held_own_ids:
  assumes "distinct (map ID ds)" and "devices s = map (\<lambda>device. (ID device, device)) ds"
  shows "held s (map ID ds) = ds"
proof -
  have "filter (\<lambda>did. map_of (devices s) did \<noteq> None) (map ID ds) = map ID ds"
    by (rule filter_True) (auto simp add: assms(2) lookup_own_id [OF assms(1)])
  moreover have "map ((\<lambda>did. the (map_of (devices s) did)) \<circ> ID) ds = ds"
    by (rule map_idI) (simp add: assms(2) lookup_own_id [OF assms(1)])
  ultimately show ?thesis by (simp add: held_def)
qed

lemma NewStore_store_ok:
  assumes "catalog_ok h c"
  shows "store_ok (h @ map (state_of h) c)
    \<lparr>devices = map (\<lambda>device. (ID device, device)) (snapshots (length h) c), order = map ID c\<rparr>"
proof -
  have ok: "heap_ok h" using assms by (simp add: catalog_ok_def)
  have 1: "heap_ok (h @ map (state_of h) c)"
    using ok by (simp add: heap_ok_append2) (simp add: heap_ok_def list_all_iff heap_ok_state_of)
  have "\<forall>x \<in> set (map State (snapshots (length h) c)).
      case x of None \<Rightarrow> False | Some a \<Rightarrow> a < length (h @ map (state_of h) c)"
    unfolding map_State_snapshots by auto
  then have 2: "list_all (\<lambda>(did, device). case State device of None \<Rightarrow> False
        | Some a \<Rightarrow> a < length (h @ map (state_of h) c))
      (map (\<lambda>device. (ID device, device)) (snapshots (length h) c))"
    by (simp add: list_all_iff)
  have "map (\<lambda>(did, device). State device)
      (map (\<lambda>device. (ID device, device)) (snapshots (length h) c))
      = map State (snapshots (length h) c)" by simp
  then have 3: "distinct (map (\<lambda>(did, device). State device)
      (map (\<lambda>device. (ID device, device)) (snapshots (length h) c)))"
    by (simp only: map_State_snapshots) (simp add: distinct_map)
  show ?thesis using 1 2 3 by (simp add: store_ok_def)
qed

section \<open>Loading the catalog\<close>

lemma non_nil_map_Some [simp]: "non_nil (map Some c) = c"
  by (induction c) simp_all

lemma map_Some_non_nil: "None \<notin> set c \<Longrightarrow> map Some (non_nil c) = c"
proof (induction c)
  case Nil
  then show ?case by simp
next
  case (Cons p c)
  then show ?case by (cases p) simp_all
qed

text \<open>A catalog with a nil entry is not loaded: the loop panics at it or fails before it.\<close>

lemma loadDevices_loop_nil:
  "None \<in> set c \<Longrightarrow> \<exists>h' e. loadDevices_loop seen c h = (h', Inl e)"
proof (induction c arbitrary: seen h)
  case Nil
  then show ?case by simp
next
  case (Cons p c)
  show ?case
  proof (cases p)
    case None
    then show ?thesis by simp
  next
    case (Some d)
    then have n: "None \<in> set c" using Cons.prems by simp
    obtain h1 d1 where s: "(case State d of
          None \<Rightarrow> (let (h', a) = new_map h [] in (h', d\<lparr>State := Some a\<rparr>))
        | Some a \<Rightarrow> (h, d)) = (h1, d1)" by fastforce
    obtain h' e where r: "loadDevices_loop (ID d # seen) c h1 = (h', Inl e)"
      using Cons.IH [OF n] by blast
    show ?thesis by (auto simp add: Some s r)
  qed
qed

lemma loadDevices_loop_error:
  "\<not> (list_all fields_present c \<and> distinct (map ID c) \<and> set (map ID c) \<inter> set seen = {}) \<Longrightarrow>
    \<exists>h' e. loadDevices_loop seen (map Some c) h = (h', Inl (ErrorString e))"
proof (induction c arbitrary: seen h)
  case Nil
  then show ?case by simp
next
  case (Cons d c)
  show ?case
  proof (cases "fields_present d \<and> ID d \<notin> set seen")
    case False
    then show ?thesis by (auto simp add: fields_present_def)
  next
    case True
    then have rest: "\<not> (list_all fields_present c \<and> distinct (map ID c)
        \<and> set (map ID c) \<inter> set (ID d # seen) = {})"
      using Cons.prems by auto
    obtain h1 d1 where s: "(case State d of
          None \<Rightarrow> (let (h', a) = new_map h [] in (h', d\<lparr>State := Some a\<rparr>))
        | Some a \<Rightarrow> (h, d)) = (h1, d1)" by fastforce
    obtain h' e where "loadDevices_loop (ID d # seen) (map Some c) h1 = (h', Inl (ErrorString e))"
      using Cons.IH [OF rest] by blast
    then show ?thesis using True by (simp add: fields_present_def s)
  qed
qed

lemma loadDevices_loop_ok:
  assumes "list_all fields_present c" and "distinct (map ID c)"
    and "set (map ID c) \<inter> set seen = {}" and "catalog_ok h c"
  shows "\<exists>t ds. loadDevices_loop seen (map Some c) h = (h @ t, Inr ds)
    \<and> catalog_ok (h @ t) ds
    \<and> map ID ds = map ID c \<and> map Name ds = map Name c
    \<and> map Kind ds = map Kind c \<and> map Room ds = map Room c
    \<and> map (state_of (h @ t)) ds = map (state_of h) c"
  using assms
proof (induction c arbitrary: seen h)
  case Nil
  then show ?case by (intro exI [of _ "[]"]) (simp add: catalog_ok_def)
next
  case (Cons d c)
  define t1 where "t1 = (case State d of None \<Rightarrow> [[]] | Some a \<Rightarrow> ([] :: heap))"
  define d1 where "d1 = (case State d of None \<Rightarrow> d\<lparr>State := Some (length h)\<rparr> | Some a \<Rightarrow> d)"
  have s: "(case State d of
        None \<Rightarrow> (let (h', a) = new_map h [] in (h', d\<lparr>State := Some a\<rparr>))
      | Some a \<Rightarrow> (h, d)) = (h @ t1, d1)"
    by (simp add: t1_def d1_def new_map_def split: option.splits)
  have okh: "heap_ok h" and ald: "allocated h d" and alc: "list_all (allocated h) c"
    using Cons.prems(4) by (simp_all add: catalog_ok_def)
  have ok1: "catalog_ok (h @ t1) c"
    using okh alc
    by (auto simp add: catalog_ok_def heap_ok_append2 heap_ok_def t1_def list_all_iff allocated_grow
        split: option.splits)
  have al1: "allocated (h @ t1) d1"
    using ald by (auto simp add: allocated_def d1_def t1_def split: option.splits)
  have st1: "state_of (h @ t1) d1 = state_of h d"
    using ald by (auto simp add: allocated_def state_of_def d1_def t1_def entries_def nth_append
        split: option.splits)
  have id1: "ID d1 = ID d" "Name d1 = Name d" "Kind d1 = Kind d" "Room d1 = Room d"
    by (simp_all add: d1_def split: option.splits)
  obtain t ds where r: "loadDevices_loop (ID d # seen) (map Some c) (h @ t1) = ((h @ t1) @ t, Inr ds)"
    "catalog_ok ((h @ t1) @ t) ds"
    "map ID ds = map ID c" "map Name ds = map Name c"
    "map Kind ds = map Kind c" "map Room ds = map Room c"
    "map (state_of ((h @ t1) @ t)) ds = map (state_of (h @ t1)) c"
    using Cons.IH [of "ID d # seen" "h @ t1"] Cons.prems(1,2,3) ok1 by auto
  have c: "map (state_of (h @ t1)) c = map (state_of h) c"
    using alc by (auto simp add: list_all_iff state_of_grow)
  have l: "loadDevices_loop seen (map Some (d # c)) h = (h @ (t1 @ t), Inr (d1 # ds))"
    using Cons.prems(1,3) by (simp add: fields_present_def s r(1))
  have k: "catalog_ok (h @ (t1 @ t)) (d1 # ds)"
    using r(2) al1 by (simp add: catalog_ok_def allocated_grow [of "h @ t1" d1 t, simplified])
  have m: "map (state_of (h @ (t1 @ t))) (d1 # ds) = map (state_of h) (d # c)"
    using r(7) c state_of_grow [OF al1, of t] st1 by simp
  show ?case
    using l k m r(3-6) id1 by (intro exI [of _ "t1 @ t"] exI [of _ "d1 # ds"]) simp
qed

subsection \<open>C8: what a catalog must satisfy\<close>

text \<open>
  C8, as the spec states it, fails for two catalogs.  The catalog without devices has
  unique ids and no device of it misses a field, yet \<^verbatim>\<open>loadDevices\<close> rejects it.  And a
  catalog with a null entry before two devices that share an id is not rejected with a
  configuration error: \<^verbatim>\<open>loadDevices\<close> reads the id through the nil pointer and panics.
\<close>

theorem catalog_without_devices_counterexample:
  "distinct (map ID ([] :: Device list)) \<and> list_all fields_present []
    \<and> loadDevices [] (Decoded []) = ([], Inl (ErrorString ''no devices defined''))
    \<and> \<not> distinct (map ID (non_nil [None, Some blind1, Some blind1]))
    \<and> loadDevices heap0 (Decoded [None, Some blind1, Some blind1])
        = (heap0, Inl (RuntimePanic ''invalid memory address or nil pointer dereference''))
    \<and> main_startup heap0 (Decoded [None, Some blind1, Some blind1])
        = Crashed ''invalid memory address or nil pointer dereference''"
  by (simp add: loadDevices_def main_startup_def)

text \<open>
  C8, amended: loading fails with an error, and \<^verbatim>\<open>main\<close> stops before it builds the
  store, for every catalog without null entries in which two devices share an id or a
  device misses its id, name or kind.  For every catalog without null entries that has at
  least one device, unique ids and the three fields on every device, loading succeeds and
  the registry lists the devices in catalog order, each with its fields and its state.
  Nothing is stated about a catalog with a null entry.
\<close>

theorem catalog_loading:
  "(\<not> (list_all fields_present c \<and> distinct (map ID c)) \<longrightarrow>
      (\<exists>h' e. loadDevices h (Decoded (map Some c)) = (h', Inl (ErrorString e))
        \<and> main_startup h (Decoded (map Some c)) = Fatal (''failed to load devices: '' @ e)))
    \<and> (c \<noteq> [] \<and> list_all fields_present c \<and> distinct (map ID c) \<and> catalog_ok h c \<longrightarrow>
      (\<exists>h0 s h1 listed. main_startup h (Decoded (map Some c)) = Serving h0 s
        \<and> List h0 s = (h1, listed)
        \<and> map ID listed = map ID c \<and> map Name listed = map Name c
        \<and> map Kind listed = map Kind c \<and> map Room listed = map Room c
        \<and> map (state_of h1) listed = map (state_of h) c))"
proof (intro conjI impI)
  assume bad: "\<not> (list_all fields_present c \<and> distinct (map ID c))"
  then have "c \<noteq> []" by auto
  moreover obtain h' e where "loadDevices_loop [] (map Some c) h = (h', Inl (ErrorString e))"
    using loadDevices_loop_error [of c "[]" h] bad by auto
  ultimately show "\<exists>h' e. loadDevices h (Decoded (map Some c)) = (h', Inl (ErrorString e))
      \<and> main_startup h (Decoded (map Some c)) = Fatal (''failed to load devices: '' @ e)"
    by (simp add: loadDevices_def main_startup_def)
next
  assume good: "c \<noteq> [] \<and> list_all fields_present c \<and> distinct (map ID c) \<and> catalog_ok h c"
  obtain t ds where l: "loadDevices_loop [] (map Some c) h = (h @ t, Inr ds)"
    and ok: "catalog_ok (h @ t) ds"
    and f: "map ID ds = map ID c" "map Name ds = map Name c"
      "map Kind ds = map Kind c" "map Room ds = map Room c"
    and st: "map (state_of (h @ t)) ds = map (state_of h) c"
    using loadDevices_loop_ok [of c "[]" h] good by auto
  have dis: "distinct (map ID ds)" using good f(1) by simp
  let ?hL = "h @ t"
  let ?snaps = "snapshots (length ?hL) ds"
  let ?h0 = "?hL @ map (state_of ?hL) ds"
  let ?s = "\<lparr>devices = map (\<lambda>device. (ID device, device)) ?snaps, order = map ID ds\<rparr>"
  have n: "NewStore ?hL ds = (?h0, ?s)" by (rule NewStore_eq [OF ok dis])
  have m: "main_startup h (Decoded (map Some c)) = Serving ?h0 ?s"
    using good by (simp add: main_startup_def loadDevices_def l n)
  have sok: "store_ok ?h0 ?s" by (rule NewStore_store_ok [OF ok])
  have "held ?s (map ID ?snaps) = ?snaps" by (rule held_own_ids) (simp_all add: dis)
  then have hl: "held ?s (order ?s) = ?snaps" by simp
  have rd: "map (state_of ?h0) ?snaps = map (state_of ?hL) ds"
    using state_of_snapshots [of "map (state_of ?hL) ds" ds ?hL "[]"] by simp
  let ?h1 = "?h0 @ map (state_of ?h0) ?snaps"
  let ?listed = "snapshots (length ?h0) ?snaps"
  have li: "List ?h0 ?s = (?h1, ?listed)" using List_eq [OF sok] by (simp only: hl)
  have e1: "map (state_of ?h1) ?listed = map (state_of ?h0) ?snaps"
    using state_of_snapshots [of "map (state_of ?h0) ?snaps" ?snaps ?h0 "[]"] by simp
  have sl: "map (state_of ?h1) ?listed = map (state_of h) c"
    by (rule trans [OF e1 trans [OF rd st]])
  show "\<exists>h0 s h1 listed. main_startup h (Decoded (map Some c)) = Serving h0 s
      \<and> List h0 s = (h1, listed)
      \<and> map ID listed = map ID c \<and> map Name listed = map Name c
      \<and> map Kind listed = map Kind c \<and> map Room listed = map Room c
      \<and> map (state_of h1) listed = map (state_of h) c"
    using m li sl f by (intro exI [of _ ?h0] exI [of _ ?s] exI [of _ ?h1] exI [of _ ?listed]) simp
qed

lemma catalog0_ok: "catalog_ok heap0 catalog0"
  by (simp add: catalog_ok_def heap_ok_def allocated_def heap0_def catalog0_def blind1_def
      thermo1_def lamp1_def)

text \<open>
  The amended C8 on the sample catalog, and on a catalog that names the blind twice.
\<close>

theorem catalog_loading_witness:
  "catalog0 \<noteq> [] \<and> list_all fields_present catalog0 \<and> distinct (map ID catalog0)
    \<and> catalog_ok heap0 catalog0
    \<and> (\<exists>h0 s h1 listed. main_startup heap0 (Decoded (map Some catalog0)) = Serving h0 s
          \<and> List h0 s = (h1, listed) \<and> map ID listed = [''blind1'', ''thermo1'', ''lamp1''])
    \<and> (\<exists>h' e. loadDevices heap0 (Decoded [Some blind1, Some blind1]) = (h', Inl (ErrorString e))
          \<and> main_startup heap0 (Decoded [Some blind1, Some blind1])
              = Fatal (''failed to load devices: '' @ e))"
proof -
  have a: "catalog0 \<noteq> [] \<and> list_all fields_present catalog0 \<and> distinct (map ID catalog0)"
    by (simp add: catalog0_def fields_present_def blind1_def thermo1_def lamp1_def)
  have b: "map ID catalog0 = [''blind1'', ''thermo1'', ''lamp1'']"
    by (simp add: catalog0_def blind1_def thermo1_def lamp1_def)
  have c: "\<not> (list_all fields_present [blind1, blind1] \<and> distinct (map ID [blind1, blind1]))"
    by simp
  have m: "map Some [blind1, blind1] = [Some blind1, Some blind1]" by simp
  show ?thesis
    using a catalog0_ok catalog_loading [of catalog0 heap0] catalog_loading [of "[blind1, blind1]" heap0] c
    unfolding b [symmetric] m by blast
qed

section \<open>The normalized domain\<close>

lemma clampInt_bounds: "lo \<le> hi \<Longrightarrow> lo \<le> clampInt v lo hi \<and> clampInt v lo hi \<le> hi"
  by (simp add: clampInt_def)

lemma clampToInt_bounds: "lo \<le> hi \<Longrightarrow> lo \<le> clampToInt P v lo hi \<and> clampToInt P v lo hi \<le> hi"
  by (cases v) (simp_all add: clampInt_bounds split: option.splits)

lemma round_to_format_not_NaN: "round_to_format p emin emax x \<noteq> NaN"
  by (simp add: round_to_format_def Let_def)

lemma int_to_float64_not_NaN: "int_to_float64 n \<noteq> NaN"
  by (simp add: int_to_float64_def round64_def round_to_format_not_NaN)

lemma clampFloat_temperature:
  "f \<noteq> NaN \<Longrightarrow> is_temperature (VFloat64 (clampFloat f (Fin 10) (Fin 30)))"
  by (cases f) (simp_all add: clampFloat_def)

lemma clampToFloat_temperature:
  "\<not> is_nan P v \<Longrightarrow> is_temperature (VFloat64 (clampToFloat P v (Fin 10) (Fin 30)))"
  by (cases v)
    (auto simp add: clampFloat_temperature int_to_float64_not_NaN split: option.splits)

text \<open>Every value that is not NaN is normalized into the domain of its kind and key.\<close>

lemma normalize_in_domain:
  assumes "\<not> is_nan P v"
  shows "in_domain kind key (normalizeValue P kind key v)"
proof -
  consider "numeric_kind kind \<and> numeric_key key"
    | "\<not> (numeric_kind kind \<and> numeric_key key)" "kind = ''thermostat'' \<and> key = ''temperature''"
    | "\<not> (numeric_kind kind \<and> numeric_key key)" "\<not> (kind = ''thermostat'' \<and> key = ''temperature'')"
      "boolean_kind kind \<and> boolean_key key"
    | "\<not> (numeric_kind kind \<and> numeric_key key)" "\<not> (kind = ''thermostat'' \<and> key = ''temperature'')"
      "\<not> (boolean_kind kind \<and> boolean_key key)"
    by blast
  then show ?thesis
  proof cases
    case 1
    then show ?thesis
      using clampToInt_bounds [of 0 100 P v] by (simp add: in_domain_def normalize_percent)
  next
    case 2
    then show ?thesis
      using clampToFloat_temperature [OF assms] by (simp add: in_domain_def normalize_temperature)
  next
    case 3
    then show ?thesis by (simp add: in_domain_def normalize_boolean)
  next
    case 4
    then show ?thesis by (auto simp add: in_domain_def)
  qed
qed

lemma assigned_in_domain:
  assumes "list_all (\<lambda>(key, v). in_domain kind key v) m0"
    and "list_all (\<lambda>(key, v). \<not> is_nan P v) es"
  shows "list_all (\<lambda>(key, v). in_domain kind key v) (assigned P kind es m0)"
  unfolding assigned_def
proof (rule list_all_fold_update [OF assms(1)])
  show "list_all (\<lambda>(key, v). in_domain kind key (normalizeValue P kind key v)) es"
    using assms(2) by (auto simp add: list_all_iff normalize_in_domain)
qed

text \<open>The device that holds a given state map is the one \<^verbatim>\<open>Update\<close> looked up.\<close>

lemma same_state_same_device:
  assumes "distinct (map (\<lambda>(did, device). State device) ds)"
    and "(i, d) \<in> set ds" and "(j, e) \<in> set ds" and "State d = State e"
  shows "(i, d) = (j, e)"
  using assms
proof (induction ds)
  case Nil
  then show ?case by simp
next
  case (Cons x ds)
  then show ?case by (cases x) (force simp add: image_iff)
qed

lemma Update_in_domain:
  assumes ok: "store_ok h s" and dom: "registry_in_domain h s" and nf: "nan_free P state"
  shows "registry_in_domain (fst (Update P h s did state)) s"
proof (cases "map_of (devices s) did")
  case None
  then show ?thesis using dom by (simp add: Update_unknown)
next
  case (Some device)
  obtain a where a: "State device = Some a" "a < length h"
    using store_ok_lookup [OF ok Some] by blast
  let ?m = "assigned P (Kind device) (map_entries state) (entries h a)"
  let ?h = "h[a := ?m] @ [?m]"
  have mem: "(did, device) \<in> set (devices s)" using Some by (rule map_of_SomeD)
  have old: "list_all (\<lambda>(key, v). in_domain (Kind device) key v) (entries h a)"
    using dom mem a by (auto simp add: registry_in_domain_def device_in_domain_def state_of_def
        list_all_iff)
  have new: "list_all (\<lambda>(key, v). in_domain (Kind device) key v) ?m"
    using old nf by (intro assigned_in_domain) (simp_all add: nan_free_def)
  have "device_in_domain ?h e" if e: "(j, e) \<in> set (devices s)" for j e
  proof -
    obtain b where b: "State e = Some b" "b < length h"
      using ok e by (auto simp add: store_ok_def list_all_iff split: option.splits)
    show ?thesis
    proof (cases "b = a")
      case True
      have "(j, e) = (did, device)"
        using ok e mem b a True
        by (intro same_state_same_device [of "devices s"]) (simp_all add: store_ok_def)
      then show ?thesis
        using new a by (simp add: device_in_domain_def state_of_def entries_new_map entries_list_update)
    next
      case False
      have "device_in_domain h e"
        using dom e by (auto simp add: registry_in_domain_def list_all_iff)
      then show ?thesis
        using b False
        by (simp add: device_in_domain_def state_of_def entries_new_map entries_list_update)
    qed
  qed
  then show ?thesis
    by (auto simp add: Update_eq [OF ok Some a(1)] registry_in_domain_def list_all_iff)
qed

lemma Updates_in_domain:
  assumes "store_ok h s" and "registry_in_domain h s"
    and "list_all (\<lambda>(did, state). nan_free P state) updates"
  shows "registry_in_domain (Updates P updates h s) s"
  using assms
proof (induction updates arbitrary: h)
  case Nil
  then show ?case by simp
next
  case (Cons u updates)
  obtain did state where u: "u = (did, state)" by (cases u)
  show ?case
    using Cons.prems
    by (simp add: u Cons.IH [OF Update_store_ok Update_in_domain])
qed

lemma device_in_domain_cong:
  "Kind d = Kind e \<Longrightarrow> state_of h d = state_of h' e \<Longrightarrow> device_in_domain h d = device_in_domain h' e"
  by (simp add: device_in_domain_def)

lemma list_all_device_in_domain:
  "map Kind ds = map Kind es \<Longrightarrow> map (state_of h) ds = map (state_of h') es \<Longrightarrow>
    list_all (device_in_domain h) ds = list_all (device_in_domain h') es"
proof (induction ds arbitrary: es)
  case Nil
  then show ?case by simp
next
  case (Cons d ds)
  then obtain e es' where es: "es = e # es'" by (cases es) auto
  show ?case using Cons.prems Cons.IH [of es'] by (simp add: es device_in_domain_cong [of d e h h'])
qed

subsection \<open>The values an update stores\<close>

text \<open>
  For a device the registry holds and a partial state without NaN, \<^verbatim>\<open>Update\<close> succeeds and
  every key of the partial state has, in the device it returns, the normalization of the
  supplied value, which lies in the normalized domain of the device's kind and the key.
\<close>

theorem updated_keys_in_domain:
  assumes "store_ok h s" and "map_of (devices s) did = Some device"
    and "distinct (map fst (map_entries state))" and "nan_free P state"
    and "(key, v) \<in> set (map_entries state)"
  shows "\<exists>h' updated. Update P h s did state = (h', Inr updated)
    \<and> map_of (state_of h' updated) key = Some (normalizeValue P (Kind device) key v)
    \<and> in_domain (Kind device) key (normalizeValue P (Kind device) key v)"
proof -
  obtain a where a: "State device = Some a" "a < length h"
    using store_ok_lookup [OF assms(1,2)] by blast
  let ?m = "assigned P (Kind device) (map_entries state) (entries h a)"
  have u: "Update P h s did state = (h[a := ?m] @ [?m], Inr (device\<lparr>State := Some (length h)\<rparr>))"
    by (rule Update_eq [OF assms(1,2) a(1)])
  have st: "state_of (h[a := ?m] @ [?m]) (device\<lparr>State := Some (length h)\<rparr>) = ?m"
    using state_of_copy [of "h[a := ?m]" ?m device] by simp
  have k: "map_of (map_entries state) key = Some v"
    using assms(3,5) by (rule map_of_is_SomeI)
  have m: "map_of ?m key = Some (normalizeValue P (Kind device) key v)"
    by (simp add: map_of_assigned [OF assms(3)] k)
  have "\<not> is_nan P v" using assms(4,5) by (auto simp add: nan_free_def list_all_iff)
  then have d: "in_domain (Kind device) key (normalizeValue P (Kind device) key v)"
    by (rule normalize_in_domain)
  show ?thesis
    apply (intro exI conjI)
      apply (rule u)
     apply (simp only: st m)
    apply (rule d)
    done
qed

text \<open>On the sample registry: the thermostat is set to 35 and stores 30.\<close>

theorem updated_keys_in_domain_witness:
  "store_ok heap1 store1
    \<and> (\<exists>h' updated.
          Update amd64 heap1 store1 ''thermo1'' (Some [(''temperature'', VFloat64 (Fin 35))])
            = (h', Inr updated)
          \<and> map_of (state_of h' updated) ''temperature'' = Some (VFloat64 (Fin 30)))"
proof -
  have l: "map_of (devices store1) ''thermo1'' = Some (thermo1\<lparr>State := Some 5\<rparr>)"
    by (simp add: store1_def)
  have n: "normalizeValue amd64 (Kind (thermo1\<lparr>State := Some 5\<rparr>)) ''temperature''
      (VFloat64 (Fin 35)) = VFloat64 (Fin 30)"
    by (simp add: normalizeValue_def thermo1_def clampFloat_def)
  show ?thesis
    using store1_ok
      updated_keys_in_domain [OF store1_ok l, of "Some [(''temperature'', VFloat64 (Fin 35))]"
        amd64 "''temperature''" "VFloat64 (Fin 35)"]
    unfolding n by (auto simp add: map_entries_def nan_free_def)
qed

subsection \<open>C2: the registry stays in the normalized domain\<close>

text \<open>
  C2, as the spec states it, fails in the initial state: \<^verbatim>\<open>loadDevices\<close> and \<^verbatim>\<open>NewStore\<close>
  copy the state of the catalog as it is, nothing normalizes it.  A catalog whose blind
  has position 150 gives a registry whose blind has position 150.  (It also fails after
  an \<^verbatim>\<open>Update\<close> that carries a NaN as temperature, which \<^verbatim>\<open>clampFloat\<close> returns unchanged.)
\<close>

theorem catalog_position_150_counterexample:
  "main_startup heap_150 (Decoded [Some blind1]) = Serving (heap_150 @ heap_150) store_150
    \<and> state_of (heap_150 @ heap_150) (blind1\<lparr>State := Some 1\<rparr>) = [(''position'', VInt 150)]
    \<and> \<not> registry_in_domain (heap_150 @ heap_150) store_150
    \<and> \<not> registry_in_domain
          (fst (Update amd64 heap1 store1 ''thermo1'' (Some [(''temperature'', VFloat64 NaN)])))
          store1"
proof -
  have u: "Update amd64 heap1 store1 ''thermo1'' (Some [(''temperature'', VFloat64 NaN)])
      = (heap1[5 := [(''temperature'', VFloat64 NaN)]] @ [[(''temperature'', VFloat64 NaN)]],
         Inr (thermo1\<lparr>State := Some 7\<rparr>))"
    using Update_eq [OF store1_ok, of "''thermo1''" "thermo1\<lparr>State := Some 5\<rparr>" 5 amd64
        "Some [(''temperature'', VFloat64 NaN)]"]
    by (simp add: store1_def assigned_def map_entries_def entries_def heap1_def heap0_def
        thermo1_def normalizeValue_def clampFloat_def)
  show ?thesis
    unfolding u
    by (simp add: main_startup_def loadDevices_def NewStore_def copy_device_def copyState_def
        new_map_def entries_def heap_150_def store_150_def blind1_def state_of_def
        registry_in_domain_def device_in_domain_def in_domain_def numeric_kind_def
        numeric_key_def store1_def heap1_def heap0_def thermo1_def lamp1_def boolean_kind_def)
qed

text \<open>
  C2, amended: when the state that the catalog gives every device lies in the normalized
  domain, then so does the state of every device of the registry that \<^verbatim>\<open>main\<close> builds,
  initially and after any sequence of \<^verbatim>\<open>Update\<close> calls none of which carries a NaN:
  position and level of a blind or humidifier are integers from 0 to 100, the temperature
  of a thermostat is a \<^verbatim>\<open>float64\<close> from 10 to 30, and the keys \<^verbatim>\<open>on\<close>, \<^verbatim>\<open>open\<close>, \<^verbatim>\<open>locked\<close> of
  the six switchable kinds are booleans.  (The devices of a catalog are those its entries
  point to; no registry is built from a catalog with a nil entry.)
\<close>

theorem registry_stays_in_domain:
  assumes "catalog_ok h (non_nil catalog)" and "list_all (device_in_domain h) (non_nil catalog)"
    and "main_startup h (Decoded catalog) = Serving h0 s"
    and "list_all (\<lambda>(did, state). nan_free P state) updates"
  shows "registry_in_domain h0 s \<and> registry_in_domain (Updates P updates h0 s) s"
proof -
  define c where "c = non_nil catalog"
  have "None \<notin> set catalog"
  proof
    assume n: "None \<in> set catalog"
    then have "catalog \<noteq> []" by auto
    moreover obtain h' e where "loadDevices_loop [] catalog h = (h', Inl e)"
      using loadDevices_loop_nil [OF n] by blast
    ultimately have "loadDevices h (Decoded catalog) = (h', Inl e)" by (simp add: loadDevices_def)
    then show False using assms(3) by (simp add: main_startup_def split: error.splits)
  qed
  then have cc: "catalog = map Some c" unfolding c_def by (rule map_Some_non_nil [symmetric])
  have good: "c \<noteq> [] \<and> list_all fields_present c \<and> distinct (map ID c)"
  proof (rule ccontr)
    assume bad: "\<not> (c \<noteq> [] \<and> list_all fields_present c \<and> distinct (map ID c))"
    have "\<exists>h' e. loadDevices h (Decoded (map Some c)) = (h', Inl e)"
    proof (cases "c = []")
      case True
      then show ?thesis by (simp add: loadDevices_def)
    next
      case False
      then show ?thesis
        using loadDevices_loop_error [of c "[]" h] bad by (auto simp add: loadDevices_def)
    qed
    then show False using assms(3) by (auto simp add: main_startup_def cc split: error.splits)
  qed
  obtain t ds where l: "loadDevices_loop [] (map Some c) h = (h @ t, Inr ds)"
    and ok: "catalog_ok (h @ t) ds"
    and f: "map ID ds = map ID c" "map Kind ds = map Kind c"
    and st: "map (state_of (h @ t)) ds = map (state_of h) c"
    using loadDevices_loop_ok [of c "[]" h] good assms(1) by (auto simp add: c_def)
  have dis: "distinct (map ID ds)" using good f(1) by simp
  let ?hL = "h @ t"
  let ?snaps = "snapshots (length ?hL) ds"
  let ?h0 = "?hL @ map (state_of ?hL) ds"
  let ?s = "\<lparr>devices = map (\<lambda>device. (ID device, device)) ?snaps, order = map ID ds\<rparr>"
  have n: "NewStore ?hL ds = (?h0, ?s)" by (rule NewStore_eq [OF ok dis])
  have "main_startup h (Decoded (map Some c)) = Serving ?h0 ?s"
    using good by (simp add: main_startup_def loadDevices_def l n)
  then have hs: "h0 = ?h0" "s = ?s" using assms(3) by (simp_all add: cc)
  have sok: "store_ok ?h0 ?s" by (rule NewStore_store_ok [OF ok])
  have rd: "map (state_of ?h0) ?snaps = map (state_of ?hL) ds"
    using state_of_snapshots [of "map (state_of ?hL) ds" ds ?hL "[]"] by simp
  have "list_all (device_in_domain ?h0) ?snaps = list_all (device_in_domain h) c"
    by (rule list_all_device_in_domain) (simp add: f, rule trans [OF rd st])
  then have "list_all (device_in_domain ?h0) ?snaps" using assms(2) by (simp add: c_def)
  then have dom: "registry_in_domain ?h0 ?s"
    by (simp add: registry_in_domain_def list_all_iff)
  show ?thesis
    unfolding hs using dom Updates_in_domain [OF sok dom assms(4)] by simp
qed

lemma main_startup_catalog0:
  "main_startup heap0 (Decoded (map Some catalog0)) = Serving heap1 store1"
  by (simp add: main_startup_def loadDevices_def NewStore_def copy_device_def copyState_def
      new_map_def entries_def heap0_def heap1_def store1_def catalog0_def blind1_def thermo1_def
      lamp1_def)

text \<open>
  The amended C2 on the sample catalog, with a position of 150 and a temperature of 5
  written by two updates.
\<close>

theorem registry_stays_in_domain_witness:
  "catalog_ok heap0 catalog0 \<and> list_all (device_in_domain heap0) catalog0
    \<and> main_startup heap0 (Decoded (map Some catalog0)) = Serving heap1 store1
    \<and> registry_in_domain heap1 store1
    \<and> registry_in_domain
        (Updates amd64
           [(''blind1'', Some [(''position'', VInt 150)]),
            (''thermo1'', Some [(''temperature'', VFloat64 (Fin 5))])]
           heap1 store1)
        store1"
proof -
  have d: "list_all (device_in_domain heap0) catalog0"
    by (simp add: device_in_domain_def in_domain_def state_of_def entries_def heap0_def
        catalog0_def blind1_def thermo1_def lamp1_def numeric_kind_def numeric_key_def
        boolean_kind_def boolean_key_def)
  have n: "list_all (\<lambda>(did, state). nan_free amd64 state)
      [(''blind1'', Some [(''position'', VInt 150)]),
       (''thermo1'', Some [(''temperature'', VFloat64 (Fin 5))])]"
    by (simp add: nan_free_def map_entries_def)
  show ?thesis
    using catalog0_ok d main_startup_catalog0
      registry_stays_in_domain [of heap0 "map Some catalog0" heap1 store1, OF _ _ main_startup_catalog0 n]
    by simp
qed

section \<open>Snapshots\<close>

lemma store_addresses:
  "store_ok h s \<Longrightarrow> (j, e) \<in> set (devices s) \<Longrightarrow> \<exists>b. State e = Some b \<and> b < length h"
  by (auto simp add: store_ok_def list_all_iff split: option.splits)

text \<open>A map allocated after the store was built is not a device's state map.\<close>

lemma fresh_is_detached:
  assumes "store_ok h s" and "length h \<le> b" and "b < length h'"
  shows "detached h' s (device\<lparr>State := Some b\<rparr>)"
proof -
  have "State e \<noteq> Some b" if "(j, e) \<in> set (devices s)" for j e
    using store_addresses [OF assms(1) that] assms(2) by auto
  then show ?thesis using assms(3) by (auto simp add: detached_def list_all_iff)
qed

lemma snapshots_detached:
  assumes "store_ok h s" and "length h \<le> n" and "n + length ds \<le> length h'"
  shows "list_all (detached h' s) (snapshots n ds)"
  using assms(2,3)
proof (induction ds arbitrary: n)
  case Nil
  then show ?case by simp
next
  case (Cons d ds)
  have "detached h' s (d\<lparr>State := Some n\<rparr>)"
    using Cons.prems by (intro fresh_is_detached [OF assms(1)]) simp_all
  moreover have "list_all (detached h' s) (snapshots (Suc n) ds)"
    using Cons.prems by (intro Cons.IH) simp_all
  ultimately show ?case by simp
qed

text \<open>What \<^verbatim>\<open>Get\<close>, \<^verbatim>\<open>Update\<close> and \<^verbatim>\<open>List\<close> return: the device's fields and entries, in a new map.\<close>

lemma Get_snapshot:
  assumes "store_ok h s" and "Get h s did = (h', Some snapshot)"
  shows "\<exists>device. map_of (devices s) did = Some device \<and> same_identity snapshot device
      \<and> state_of h' snapshot = state_of h device"
    and "registry_state h' s = registry_state h s"
    and "detached h' s snapshot"
proof -
  obtain device where l: "map_of (devices s) did = Some device"
    using assms(2) by (cases "map_of (devices s) did") (simp_all add: Get_def)
  have ok: "heap_ok h" using assms(1) by (simp add: store_ok_def)
  have r: "h' = h @ [state_of h device]" "snapshot = device\<lparr>State := Some (length h)\<rparr>"
    using assms(2) Get_eq [OF ok l] by simp_all
  show "\<exists>device. map_of (devices s) did = Some device \<and> same_identity snapshot device
      \<and> state_of h' snapshot = state_of h device"
    using l by (simp add: r same_identity_def)
  show "registry_state h' s = registry_state h s"
    unfolding r by (rule registry_state_grow [OF assms(1)])
  show "detached h' s snapshot"
    using fresh_is_detached [OF assms(1), of "length h" h' device] by (simp add: r)
qed

lemma Update_snapshot:
  assumes "store_ok h s" and "Update P h s did state = (h', Inr snapshot)"
  shows "\<exists>device. map_of (devices s) did = Some device \<and> same_identity snapshot device
      \<and> state_of h' snapshot = state_of h' device"
    and "detached h' s snapshot"
proof -
  obtain device where l: "map_of (devices s) did = Some device"
    using assms(2) by (cases "map_of (devices s) did") (simp_all add: Update_unknown)
  obtain a where a: "State device = Some a" "a < length h"
    using store_ok_lookup [OF assms(1) l] by blast
  let ?m = "assigned P (Kind device) (map_entries state) (entries h a)"
  have r: "h' = h[a := ?m] @ [?m]" "snapshot = device\<lparr>State := Some (length h)\<rparr>"
    using assms(2) Update_eq [OF assms(1) l a(1), of P state] by simp_all
  have s1: "state_of h' snapshot = ?m"
    unfolding r using state_of_copy [of "h[a := ?m]" ?m device] by simp
  have s2: "state_of h' device = ?m"
    unfolding r using a by (simp add: state_of_def entries_new_map entries_list_update)
  show "\<exists>device. map_of (devices s) did = Some device \<and> same_identity snapshot device
      \<and> state_of h' snapshot = state_of h' device"
    using l s1 s2 by (simp add: r(2) same_identity_def)
  show "detached h' s snapshot"
    using fresh_is_detached [OF assms(1), of "length h" h' device] by (simp add: r)
qed

lemma List_snapshots:
  assumes "store_ok h s" and "List h s = (h', listed)"
  shows "map ID listed = map ID (held s (order s)) \<and> map Name listed = map Name (held s (order s))
      \<and> map Kind listed = map Kind (held s (order s)) \<and> map Room listed = map Room (held s (order s))
      \<and> map (state_of h') listed = map (state_of h) (held s (order s))"
    and "registry_state h' s = registry_state h s"
    and "list_all (detached h' s) listed"
proof -
  let ?ds = "held s (order s)"
  have r: "h' = h @ map (state_of h) ?ds" "listed = snapshots (length h) ?ds"
    using assms(2) List_eq [OF assms(1)] by simp_all
  have st: "map (state_of h') listed = map (state_of h) ?ds"
    unfolding r using state_of_snapshots [of "map (state_of h) ?ds" ?ds h "[]"] by simp
  show "map ID listed = map ID ?ds \<and> map Name listed = map Name ?ds
      \<and> map Kind listed = map Kind ?ds \<and> map Room listed = map Room ?ds
      \<and> map (state_of h') listed = map (state_of h) ?ds"
    using st by (simp add: r(2))
  have "state_of (h @ t) e = state_of h e" if "(j, e) \<in> set (devices s)" for j e t
    using store_addresses [OF assms(1) that] by (auto simp add: state_of_def entries_append)
  then show "registry_state h' s = registry_state h s"
    unfolding r by (auto simp add: registry_state_def)
  show "list_all (detached h' s) listed"
    using snapshots_detached [OF assms(1), of "length h" ?ds h'] by (simp add: r)
qed

text \<open>
  Whatever is written to a detached snapshot's map, the registry is as it was, and the
  store stays well formed when the map written has unique keys, as every Go map has.
\<close>

lemma write_detached:
  assumes "store_ok h s" and "detached h s snapshot" and "State snapshot = Some b"
  shows "registry_state (h[b := m]) s = registry_state h s"
    and "detached (h[b := m]) s snapshot"
    and "distinct (map fst m) \<Longrightarrow> store_ok (h[b := m]) s"
proof -
  have "state_of (h[b := m]) e = state_of h e" if e: "(j, e) \<in> set (devices s)" for j e
  proof -
    have "State e \<noteq> Some b"
      using assms(2,3) e by (auto simp add: detached_def list_all_iff)
    then show ?thesis
      by (auto simp add: state_of_def entries_list_update split: option.splits)
  qed
  then show "registry_state (h[b := m]) s = registry_state h s"
    by (auto simp add: registry_state_def)
  show "detached (h[b := m]) s snapshot"
    using assms(2,3) by (simp add: detached_def)
  show "distinct (map fst m) \<Longrightarrow> store_ok (h[b := m]) s"
    by (rule store_ok_assign [OF assms(1)])
qed

text \<open>An \<^verbatim>\<open>Update\<close> does not change a detached snapshot's map, and leaves it detached.\<close>

lemma Update_keeps_detached:
  assumes "store_ok h s" and "detached h s snapshot"
  shows "state_of (fst (Update P h s did state)) snapshot = state_of h snapshot
    \<and> detached (fst (Update P h s did state)) s snapshot"
proof (cases "map_of (devices s) did")
  case None
  then show ?thesis using assms(2) by (simp add: Update_unknown)
next
  case (Some device)
  obtain a where a: "State device = Some a" "a < length h"
    using store_ok_lookup [OF assms(1) Some] by blast
  obtain b where b: "State snapshot = Some b" "b < length h"
    "list_all (\<lambda>(did, device). State device \<noteq> Some b) (devices s)"
    using assms(2) by (auto simp add: detached_def split: option.splits)
  have "(did, device) \<in> set (devices s)" using Some by (rule map_of_SomeD)
  then have ne: "b \<noteq> a" using b(3) a(1) by (auto simp add: list_all_iff)
  show ?thesis
    using b ne
    by (simp add: Update_eq [OF assms(1) Some a(1)] state_of_def entries_new_map
        entries_list_update detached_def)
qed

text \<open>Neither does a map that is allocated later, as \<^verbatim>\<open>Get\<close> and \<^verbatim>\<open>List\<close> do.\<close>

lemma grow_keeps_detached:
  assumes "detached h s snapshot"
  shows "state_of (h @ t) snapshot = state_of h snapshot \<and> detached (h @ t) s snapshot"
  using assms by (auto simp add: detached_def state_of_def entries_append split: option.splits)

lemma Get_grows:
  assumes "store_ok h s"
  shows "\<exists>t. fst (Get h s did) = h @ t \<and> store_ok (h @ t) s"
proof (cases "map_of (devices s) did")
  case None
  then show ?thesis using assms by (intro exI [of _ "[]"]) (simp add: Get_def)
next
  case (Some device)
  have ok: "heap_ok h" using assms by (simp add: store_ok_def)
  show ?thesis
    using Get_eq [OF ok Some] store_ok_grow [OF assms heap_ok_state_of [OF ok, of device]]
    by (intro exI [of _ "[state_of h device]"]) simp
qed

lemma store_ok_append:
  assumes "store_ok h s" and "heap_ok t"
  shows "store_ok (h @ t) s"
  using assms(2)
proof (induction t rule: rev_induct)
  case Nil
  then show ?case using assms(1) by simp
next
  case (snoc m t)
  then have "store_ok (h @ t) s" and "distinct (map fst m)" by (simp_all add: heap_ok_def)
  then have "store_ok ((h @ t) @ [m]) s" by (rule store_ok_grow)
  then show ?case by simp
qed

lemma List_grows:
  assumes "store_ok h s"
  shows "\<exists>t. fst (List h s) = h @ t \<and> store_ok (h @ t) s"
proof -
  have ok: "heap_ok h" using assms by (simp add: store_ok_def)
  have "heap_ok (map (state_of h) (held s (order s)))"
    by (simp add: heap_ok_def list_all_iff heap_ok_state_of [OF ok])
  then show ?thesis
    using List_eq [OF assms] store_ok_append [OF assms]
    by (intro exI [of _ "map (state_of h) (held s (order s))"]) simp
qed

text \<open>
  The registry writes to the state maps of its devices and to no other map: \<^verbatim>\<open>Update\<close>
  assigns to the map of the device it updates, and the three operations allocate the maps
  of the snapshots they return.
\<close>

lemma registry_writes_own_maps:
  assumes "store_ok h s" and "c < length h"
    and "list_all (\<lambda>(did, device). State device \<noteq> Some c) (devices s)"
  shows "entries (fst (Update P h s did state)) c = entries h c"
    and "entries (fst (Get h s did)) c = entries h c"
    and "entries (fst (List h s)) c = entries h c"
proof -
  show "entries (fst (Update P h s did state)) c = entries h c"
  proof (cases "map_of (devices s) did")
    case None
    then show ?thesis by (simp add: Update_unknown)
  next
    case (Some device)
    obtain a where a: "State device = Some a" "a < length h"
      using store_ok_lookup [OF assms(1) Some] by blast
    have "(did, device) \<in> set (devices s)" using Some by (rule map_of_SomeD)
    then have "c \<noteq> a" using assms(3) a(1) by (auto simp add: list_all_iff)
    then show ?thesis
      using assms(2)
      by (simp add: Update_eq [OF assms(1) Some a(1)] entries_new_map entries_list_update)
  qed
  obtain tg where "fst (Get h s did) = h @ tg" using Get_grows [OF assms(1)] by blast
  then show "entries (fst (Get h s did)) c = entries h c"
    using assms(2) by (simp add: entries_append)
  obtain tl where "fst (List h s) = h @ tl" using List_grows [OF assms(1)] by blast
  then show "entries (fst (List h s)) c = entries h c"
    using assms(2) by (simp add: entries_append)
qed

subsection \<open>C7: what a snapshot shares with the registry\<close>

text \<open>
  C7, as the spec states it, fails: \<^verbatim>\<open>copyState\<close> copies the entries of the state map, and
  a map stored as a value is copied as a reference.  The lamp of the sample registry has
  a map under the key \<^verbatim>\<open>scene\<close>; the snapshot that \<^verbatim>\<open>Get\<close> returns holds the same address
  under that key, so an assignment through the snapshot changes the map that the
  registry's device refers to.
\<close>

theorem nested_map_is_shared_counterexample:
  "Get heap1 store1 ''lamp1'' = (heap2, Some (lamp1\<lparr>State := Some 7\<rparr>))
    \<and> map_of (devices store1) ''lamp1'' = Some (lamp1\<lparr>State := Some 6\<rparr>)
    \<and> map_of (state_of heap2 (lamp1\<lparr>State := Some 7\<rparr>)) ''scene'' = Some (VMap 3)
    \<and> map_of (state_of heap2 (lamp1\<lparr>State := Some 6\<rparr>)) ''scene'' = Some (VMap 3)
    \<and> entries heap2 3 = [(''dim'', VInt 1)]
    \<and> entries (map_assign heap2 3 ''dim'' (VInt 9)) 3 = [(''dim'', VInt 9)]"
  by (simp add: Get_def copy_device_def copyState_def new_map_def entries_def map_assign_def
      state_of_def heap2_def heap1_def heap0_def store1_def lamp1_def)

text \<open>
  C7, amended: every device that \<^verbatim>\<open>List\<close>, \<^verbatim>\<open>Get\<close> or \<^verbatim>\<open>Update\<close> returns is an independent
  copy one level deep.  It has the fields of the registry's device and a newly allocated
  state map that holds the device's entries (after the update, for \<^verbatim>\<open>Update\<close>) and is not
  the state map of any device of the registry.  No mutation of the snapshot's own state
  map changes the registry: whatever entries \<open>m\<close> the map is left with, by assigning,
  replacing or deleting keys, the fields and the state of every registry device are as
  they were (the fields of the snapshot are a struct of its own, which the registry does
  not hold).  And no later operation of the registry changes the snapshot: \<^verbatim>\<open>Update\<close>,
  \<^verbatim>\<open>Get\<close> and \<^verbatim>\<open>List\<close> leave the entries of the snapshot's map as they were, and those of
  every other map that is not the state map of a registry device, the maps nested in a
  snapshot among them.  Each of these steps keeps the store well formed and the snapshot
  detached, so this holds for every sequence of operations.  Only the values that are
  references, maps or slices stored under a key, are shared between the registry and its
  snapshots: a caller who writes to such a nested value changes what the registry's device
  refers to.
\<close>

theorem snapshots_are_detached:
  assumes "store_ok h s"
  shows "(Get h s did = (h', Some snapshot) \<longrightarrow>
          (\<exists>device. map_of (devices s) did = Some device \<and> same_identity snapshot device
             \<and> state_of h' snapshot = state_of h device)
          \<and> registry_state h' s = registry_state h s
          \<and> detached h' s snapshot)
    \<and> (Update P h s did state = (h', Inr snapshot) \<longrightarrow>
          (\<exists>device. map_of (devices s) did = Some device \<and> same_identity snapshot device
             \<and> state_of h' snapshot = state_of h' device)
          \<and> detached h' s snapshot)
    \<and> (List h s = (h', listed) \<longrightarrow>
          map ID listed = map ID (held s (order s))
          \<and> map Name listed = map Name (held s (order s))
          \<and> map Kind listed = map Kind (held s (order s))
          \<and> map Room listed = map Room (held s (order s))
          \<and> map (state_of h') listed = map (state_of h) (held s (order s))
          \<and> registry_state h' s = registry_state h s
          \<and> list_all (detached h' s) listed)
    \<and> (detached h s snapshot \<and> State snapshot = Some b \<longrightarrow>
          registry_state (h[b := m]) s = registry_state h s
          \<and> detached (h[b := m]) s snapshot
          \<and> (distinct (map fst m) \<longrightarrow> store_ok (h[b := m]) s)
          \<and> state_of (fst (Update P h s did state)) snapshot = state_of h snapshot
          \<and> detached (fst (Update P h s did state)) s snapshot
          \<and> state_of (fst (Get h s did)) snapshot = state_of h snapshot
          \<and> detached (fst (Get h s did)) s snapshot
          \<and> state_of (fst (List h s)) snapshot = state_of h snapshot
          \<and> detached (fst (List h s)) s snapshot)
    \<and> (c < length h \<and> list_all (\<lambda>(did, device). State device \<noteq> Some c) (devices s) \<longrightarrow>
          entries (fst (Update P h s did state)) c = entries h c
          \<and> entries (fst (Get h s did)) c = entries h c
          \<and> entries (fst (List h s)) c = entries h c)
    \<and> store_ok (fst (Update P h s did state)) s
    \<and> store_ok (fst (Get h s did)) s
    \<and> store_ok (fst (List h s)) s"
proof -
  obtain tg where tg: "fst (Get h s did) = h @ tg" "store_ok (h @ tg) s"
    using Get_grows [OF assms] by blast
  obtain tl where tl: "fst (List h s) = h @ tl" "store_ok (h @ tl) s"
    using List_grows [OF assms] by blast
  have own: "c < length h \<and> list_all (\<lambda>(did, device). State device \<noteq> Some c) (devices s) \<longrightarrow>
      entries (fst (Update P h s did state)) c = entries h c
      \<and> entries (fst (Get h s did)) c = entries h c
      \<and> entries (fst (List h s)) c = entries h c"
    using registry_writes_own_maps [OF assms, of c] by blast
  have rest: "(Get h s did = (h', Some snapshot) \<longrightarrow>
          (\<exists>device. map_of (devices s) did = Some device \<and> same_identity snapshot device
             \<and> state_of h' snapshot = state_of h device)
          \<and> registry_state h' s = registry_state h s
          \<and> detached h' s snapshot)
    \<and> (Update P h s did state = (h', Inr snapshot) \<longrightarrow>
          (\<exists>device. map_of (devices s) did = Some device \<and> same_identity snapshot device
             \<and> state_of h' snapshot = state_of h' device)
          \<and> detached h' s snapshot)
    \<and> (List h s = (h', listed) \<longrightarrow>
          map ID listed = map ID (held s (order s))
          \<and> map Name listed = map Name (held s (order s))
          \<and> map Kind listed = map Kind (held s (order s))
          \<and> map Room listed = map Room (held s (order s))
          \<and> map (state_of h') listed = map (state_of h) (held s (order s))
          \<and> registry_state h' s = registry_state h s
          \<and> list_all (detached h' s) listed)
    \<and> (detached h s snapshot \<and> State snapshot = Some b \<longrightarrow>
          registry_state (h[b := m]) s = registry_state h s
          \<and> detached (h[b := m]) s snapshot
          \<and> (distinct (map fst m) \<longrightarrow> store_ok (h[b := m]) s)
          \<and> state_of (fst (Update P h s did state)) snapshot = state_of h snapshot
          \<and> detached (fst (Update P h s did state)) s snapshot
          \<and> state_of (h @ tg) snapshot = state_of h snapshot
          \<and> detached (h @ tg) s snapshot
          \<and> state_of (h @ tl) snapshot = state_of h snapshot
          \<and> detached (h @ tl) s snapshot)
    \<and> store_ok (fst (Update P h s did state)) s
    \<and> store_ok (h @ tg) s
    \<and> store_ok (h @ tl) s"
    using Get_snapshot [OF assms, of did h' snapshot] Update_snapshot [OF assms, of P did state h' snapshot]
      List_snapshots [OF assms, of h' listed] write_detached [OF assms, of snapshot b m]
      Update_keeps_detached [OF assms, of snapshot P did state]
      grow_keeps_detached [of h s snapshot tg] grow_keeps_detached [of h s snapshot tl]
      Update_store_ok [OF assms, of P did state] tg(2) tl(2)
    by blast
  show ?thesis using own rest unfolding tg(1) tl(1) by blast
qed

text \<open>
  The amended C7 on the sample registry: \<^verbatim>\<open>Get\<close> returns a snapshot of the lamp; the
  snapshot's map is emptied, then the lamp is switched on in the registry.
\<close>

theorem snapshots_are_detached_witness:
  "store_ok heap1 store1 \<and> store_ok heap2 store1
    \<and> Get heap1 store1 ''lamp1'' = (heap2, Some (lamp1\<lparr>State := Some 7\<rparr>))
    \<and> same_identity (lamp1\<lparr>State := Some 7\<rparr>) (lamp1\<lparr>State := Some 6\<rparr>)
    \<and> state_of heap2 (lamp1\<lparr>State := Some 7\<rparr>) = [(''on'', VBool False), (''scene'', VMap 3)]
    \<and> state_of heap1 (lamp1\<lparr>State := Some 6\<rparr>) = [(''on'', VBool False), (''scene'', VMap 3)]
    \<and> detached heap2 store1 (lamp1\<lparr>State := Some 7\<rparr>)
    \<and> registry_state (heap2[7 := []]) store1 = registry_state heap2 store1
    \<and> state_of (fst (Update amd64 heap2 store1 ''lamp1'' (Some [(''on'', VBool True)])))
          (lamp1\<lparr>State := Some 7\<rparr>)
        = [(''on'', VBool False), (''scene'', VMap 3)]
    \<and> entries (fst (Update amd64 heap2 store1 ''lamp1'' (Some [(''on'', VBool True)]))) 3
        = [(''dim'', VInt 1)]
    \<and> (\<exists>h' snapshot.
          Update amd64 heap2 store1 ''lamp1'' (Some [(''on'', VBool True)]) = (h', Inr snapshot)
          \<and> same_identity snapshot (lamp1\<lparr>State := Some 6\<rparr>)
          \<and> state_of h' snapshot = state_of h' (lamp1\<lparr>State := Some 6\<rparr>)
          \<and> detached h' store1 snapshot)
    \<and> (\<exists>h' listed.
          List heap1 store1 = (h', listed)
          \<and> map ID listed = [''blind1'', ''thermo1'', ''lamp1'']
          \<and> map (state_of h') listed
              = [[(''position'', VInt 20)], [(''temperature'', VFloat64 (Fin 21))],
                 [(''on'', VBool False), (''scene'', VMap 3)]]
          \<and> list_all (detached h' store1) listed)"
proof -
  have g: "Get heap1 store1 ''lamp1'' = (heap2, Some (lamp1\<lparr>State := Some 7\<rparr>))"
    by (simp add: Get_def copy_device_def copyState_def new_map_def entries_def heap2_def
        heap1_def heap0_def store1_def lamp1_def)
  have ok2: "store_ok heap2 store1"
    using store_ok_grow [OF store1_ok, of "[(''on'', VBool False), (''scene'', VMap 3)]"]
    by (simp add: heap2_def)
  have l: "map_of (devices store1) ''lamp1'' = Some (lamp1\<lparr>State := Some 6\<rparr>)"
    by (simp add: store1_def)
  have s6: "state_of heap1 (lamp1\<lparr>State := Some 6\<rparr>) = [(''on'', VBool False), (''scene'', VMap 3)]"
    by (simp add: state_of_def entries_def heap1_def heap0_def)
  have 1: "same_identity (lamp1\<lparr>State := Some 7\<rparr>) (lamp1\<lparr>State := Some 6\<rparr>)
      \<and> state_of heap2 (lamp1\<lparr>State := Some 7\<rparr>) = state_of heap1 (lamp1\<lparr>State := Some 6\<rparr>)
      \<and> detached heap2 store1 (lamp1\<lparr>State := Some 7\<rparr>)"
    using snapshots_are_detached [OF store1_ok, of "''lamp1''" heap2 "lamp1\<lparr>State := Some 7\<rparr>"] g l
    by auto
  have st: "State (lamp1\<lparr>State := Some 7\<rparr>) = Some 7" by simp
  have 2: "registry_state (heap2[7 := []]) store1 = registry_state heap2 store1
      \<and> state_of (fst (Update amd64 heap2 store1 ''lamp1'' (Some [(''on'', VBool True)])))
            (lamp1\<lparr>State := Some 7\<rparr>)
          = state_of heap2 (lamp1\<lparr>State := Some 7\<rparr>)"
    using 1 st
      snapshots_are_detached [OF ok2, of "''lamp1''" heap2 "lamp1\<lparr>State := Some 7\<rparr>" amd64
        "Some [(''on'', VBool True)]" "[]" 7 "[]"]
    by blast
  have c3: "3 < length heap2 \<and> list_all (\<lambda>(did, device). State device \<noteq> Some 3) (devices store1)"
    by (simp add: heap2_def heap1_def heap0_def store1_def blind1_def thermo1_def lamp1_def)
  have e3: "entries heap2 3 = [(''dim'', VInt 1)]"
    by (simp add: entries_def heap2_def heap1_def heap0_def)
  have 3: "entries (fst (Update amd64 heap2 store1 ''lamp1'' (Some [(''on'', VBool True)]))) 3
      = [(''dim'', VInt 1)]"
    using c3 e3
      snapshots_are_detached [OF ok2, of "''lamp1''" heap2 "lamp1\<lparr>State := Some 7\<rparr>" amd64
        "Some [(''on'', VBool True)]" "[]" 7 "[]" 3]
    by simp
  obtain hu su where u: "Update amd64 heap2 store1 ''lamp1'' (Some [(''on'', VBool True)]) = (hu, Inr su)"
    using store_ok_lookup [OF ok2 l]
      Update_eq [OF ok2 l, of _ amd64 "Some [(''on'', VBool True)]"] by blast
  have 4: "\<exists>h' snapshot.
      Update amd64 heap2 store1 ''lamp1'' (Some [(''on'', VBool True)]) = (h', Inr snapshot)
      \<and> same_identity snapshot (lamp1\<lparr>State := Some 6\<rparr>)
      \<and> state_of h' snapshot = state_of h' (lamp1\<lparr>State := Some 6\<rparr>)
      \<and> detached h' store1 snapshot"
    using u l snapshots_are_detached [OF ok2, of "''lamp1''" hu su amd64 "Some [(''on'', VBool True)]"]
    by auto
  have hd: "held store1 (order store1)
      = [blind1\<lparr>State := Some 4\<rparr>, thermo1\<lparr>State := Some 5\<rparr>, lamp1\<lparr>State := Some 6\<rparr>]"
    by (simp add: held_def store1_def)
  have sh: "map (state_of heap1) (held store1 (order store1))
      = [[(''position'', VInt 20)], [(''temperature'', VFloat64 (Fin 21))],
         [(''on'', VBool False), (''scene'', VMap 3)]]"
    unfolding hd by (simp add: state_of_def entries_def heap1_def heap0_def)
  have ih: "map ID (held store1 (order store1)) = [''blind1'', ''thermo1'', ''lamp1'']"
    unfolding hd by (simp add: blind1_def thermo1_def lamp1_def)
  obtain hl ll where li: "List heap1 store1 = (hl, ll)" by (cases "List heap1 store1")
  have 5: "\<exists>h' listed.
      List heap1 store1 = (h', listed)
      \<and> map ID listed = [''blind1'', ''thermo1'', ''lamp1'']
      \<and> map (state_of h') listed
          = [[(''position'', VInt 20)], [(''temperature'', VFloat64 (Fin 21))],
             [(''on'', VBool False), (''scene'', VMap 3)]]
      \<and> list_all (detached h' store1) listed"
    using li snapshots_are_detached [OF store1_ok, of _ hl _ _ _ ll]
    unfolding sh ih by auto
  show ?thesis using store1_ok ok2 g 1 2 3 4 5 by (simp add: s6)
qed

end
